theory Spec2Isabelle
  imports Main "HOL-Library.Multiset"
begin

section \<open>Package gomod: replace directives and their reconciliation\<close>

text \<open>
  The Go struct \<^verbatim>\<open>Replace\<close> of \<^verbatim>\<open>internal/gomod/gomod.go\<close>. Go strings are byte
  sequences, modelled as \<^typ>\<open>string\<close>.
\<close>

record Replace =
  Old :: string
  New :: string
  OldVer :: string
  NewVer :: string
  Source :: string

subsection \<open>Deduplicate\<close>

text \<open>
  The key computed in the loop body of \<^verbatim>\<open>Deduplicate\<close>:
  \<^verbatim>\<open>key := r.Old; if r.OldVer != "" { key = fmt.Sprintf("%s@%s", r.Old, r.OldVer) }\<close>.
\<close>

definition dedupKey :: "Replace \<Rightarrow> string" where
  "dedupKey r = (if OldVer r \<noteq> [] then Old r @ ''@'' @ OldVer r else Old r)"

text \<open>
  One iteration of the first loop. The comparison \<^verbatim>\<open>semver.Compare\<close> belongs to the
  imported library \<^verbatim>\<open>golang.org/x/mod/semver\<close>; it is the parameter \<open>cmp\<close>, returning
  a negative, zero or positive integer.
\<close>

definition dedupStep ::
  "(string \<Rightarrow> string \<Rightarrow> int) \<Rightarrow> (string \<rightharpoonup> Replace) \<Rightarrow> Replace \<Rightarrow> (string \<rightharpoonup> Replace)" where
  "dedupStep cmp byKey r =
     (let key = dedupKey r in
      case byKey key of
        None \<Rightarrow> byKey(key \<mapsto> r)
      | Some existing \<Rightarrow>
          if cmp (NewVer r) (NewVer existing) < 0 then byKey(key \<mapsto> r) else byKey)"

definition byKeyOf :: "(string \<Rightarrow> string \<Rightarrow> int) \<Rightarrow> Replace list \<Rightarrow> (string \<rightharpoonup> Replace)" where
  "byKeyOf cmp replaces = foldl (dedupStep cmp) Map.empty replaces"

text \<open>
  A Go \<^verbatim>\<open>for _, r := range byKey\<close> visits every key of the map once, in an order the
  language leaves unspecified (the runtime randomises it). The visiting order is the
  explicit argument \<open>ks\<close>; \<open>iterOrder m ks\<close> says that \<open>ks\<close> is an order the runtime may
  choose for the map \<open>m\<close>.
\<close>

definition iterOrder :: "('k \<rightharpoonup> 'v) \<Rightarrow> 'k list \<Rightarrow> bool" where
  "iterOrder m ks \<longleftrightarrow> distinct ks \<and> set ks = dom m"

definition rangeValues :: "('k \<rightharpoonup> 'v) \<Rightarrow> 'k list \<Rightarrow> 'v list" where
  "rangeValues m ks = List.map_filter m ks"

definition Deduplicate ::
  "(string \<Rightarrow> string \<Rightarrow> int) \<Rightarrow> string list \<Rightarrow> Replace list \<Rightarrow> Replace list" where
  "Deduplicate cmp ks replaces = rangeValues (byKeyOf cmp replaces) ks"

text \<open>
  What the proofs need of the version comparison: "compares lower" is a strict weak
  order (irreflexive, transitive, and incomparability is transitive), as it is for any
  comparison by a rank.
\<close>

definition lowerThan :: "(string \<Rightarrow> string \<Rightarrow> int) \<Rightarrow> string \<Rightarrow> string \<Rightarrow> bool" where
  "lowerThan cmp a b \<longleftrightarrow> cmp a b < 0"

definition versionOrder :: "(string \<Rightarrow> string \<Rightarrow> int) \<Rightarrow> bool" where
  "versionOrder cmp \<longleftrightarrow>
     (\<forall>a. \<not> lowerThan cmp a a) \<and>
     (\<forall>a b c. lowerThan cmp a b \<longrightarrow> lowerThan cmp b c \<longrightarrow> lowerThan cmp a c) \<and>
     (\<forall>a b c. lowerThan cmp a b \<longrightarrow> lowerThan cmp a c \<or> lowerThan cmp c b)"

subsection \<open>A concrete version comparison\<close>

text \<open>
  A comparison of versions of the form \<^verbatim>\<open>vMAJOR.MINOR.PATCH\<close> by their three numbers;
  every other string ranks below all of them. It instantiates \<open>cmp\<close> in the examples.
\<close>

definition isDigit :: "char \<Rightarrow> bool" where
  "isDigit c \<longleftrightarrow> 48 \<le> (of_char c :: nat) \<and> (of_char c :: nat) \<le> 57"

definition parseNum :: "string \<Rightarrow> nat option" where
  "parseNum s =
     (if s \<noteq> [] \<and> list_all isDigit s
      then Some (foldl (\<lambda>n c. 10 * n + (of_char c - 48)) 0 s) else None)"

fun splitDots :: "string \<Rightarrow> string list" where
  "splitDots [] = [[]]"
| "splitDots (c # cs) =
     (if c = CHR ''.'' then [] # splitDots cs
      else (case splitDots cs of [] \<Rightarrow> [[c]] | w # ws \<Rightarrow> (c # w) # ws))"

definition parseCore :: "string \<Rightarrow> (nat \<times> nat \<times> nat) option" where
  "parseCore v =
     (case v of
        [] \<Rightarrow> None
      | c # rest \<Rightarrow>
          if c = CHR ''v'' then
            (case map parseNum (splitDots rest) of
               [Some a, Some b, Some d] \<Rightarrow> Some (a, b, d)
             | _ \<Rightarrow> None)
          else None)"

fun tripleLess :: "nat \<times> nat \<times> nat \<Rightarrow> nat \<times> nat \<times> nat \<Rightarrow> bool" where
  "tripleLess (a, b, c) (a', b', c') \<longleftrightarrow> a < a' \<or> (a = a' \<and> (b < b' \<or> (b = b' \<and> c < c')))"

definition coreLess :: "string \<Rightarrow> string \<Rightarrow> bool" where
  "coreLess v w =
     (case parseCore w of
        None \<Rightarrow> False
      | Some y \<Rightarrow> (case parseCore v of None \<Rightarrow> True | Some x \<Rightarrow> tripleLess x y))"

definition coreCompare :: "string \<Rightarrow> string \<Rightarrow> int" where
  "coreCompare v w = (if coreLess v w then - 1 else if coreLess w v then 1 else 0)"


text \<open>
  The key of the specification's reconciled set: the pair of the replaced module path
  and its optional version constraint.
\<close>

definition groupKey :: "Replace \<Rightarrow> string \<times> string" where
  "groupKey r = (Old r, OldVer r)"

text \<open>
  The key string of the code determines the pair on a list when records of the list with
  equal key strings have equal pairs. (Records with equal pairs always have equal key
  strings.)
\<close>

definition keysDeterminePairs :: "Replace list \<Rightarrow> bool" where
  "keysDeterminePairs rs \<longleftrightarrow>
     (\<forall>x\<in>set rs. \<forall>y\<in>set rs. dedupKey x = dedupKey y \<longrightarrow> groupKey x = groupKey y)"

section \<open>Package pathutil\<close>

text \<open>\<^verbatim>\<open>strings.HasPrefix(s, prefix)\<close>: \<^verbatim>\<open>len(s) >= len(prefix) && s[:len(prefix)] == prefix\<close>.\<close>

definition HasPrefix :: "string \<Rightarrow> string \<Rightarrow> bool" where
  "HasPrefix s p \<longleftrightarrow> length p \<le> length s \<and> take (length p) s = p"

text \<open>
  \<^verbatim>\<open>filepath.IsAbs\<close> depends on the host; \<open>IsLocalPath\<close> takes it as the parameter
  \<open>isAbs\<close>. On Unix hosts it is \<^verbatim>\<open>strings.HasPrefix(path, "/")\<close>.
\<close>

definition IsAbs_unix :: "string \<Rightarrow> bool" where
  "IsAbs_unix path = HasPrefix path ''/''"

definition IsLocalPath :: "(string \<Rightarrow> bool) \<Rightarrow> string \<Rightarrow> bool" where
  "IsLocalPath isAbs path =
     (if path = [] then False
      else if HasPrefix path ''./'' \<or> HasPrefix path ''../'' then True
      else if path = ''.'' \<or> path = ''..'' then True
      else if isAbs path then True
      else if 2 \<le> length path \<and> path ! 1 = CHR '':'' then True
      else False)"

text \<open>
  The classification as the specification words it: \<^verbatim>\<open>.\<close>, \<^verbatim>\<open>..\<close>, a prefix \<^verbatim>\<open>./\<close> or
  \<^verbatim>\<open>../\<close>, a leading path separator, or a drive-letter prefix \<^verbatim>\<open><letter>:\<close>.
\<close>

definition isLetter :: "char \<Rightarrow> bool" where
  "isLetter c \<longleftrightarrow>
     (65 \<le> (of_char c :: nat) \<and> (of_char c :: nat) \<le> 90) \<or>
     (97 \<le> (of_char c :: nat) \<and> (of_char c :: nat) \<le> 122)"

definition driveLetterPrefix :: "string \<Rightarrow> bool" where
  "driveLetterPrefix t = (case t of c # d # rest \<Rightarrow> isLetter c \<and> d = CHR '':'' | _ \<Rightarrow> False)"

definition specLocalPath :: "string \<Rightarrow> bool" where
  "specLocalPath t \<longleftrightarrow>
     t = ''.'' \<or> t = ''..'' \<or> HasPrefix t ''./'' \<or> HasPrefix t ''../'' \<or>
     HasPrefix t ''/'' \<or> driveLetterPrefix t"

text \<open>The method \<^verbatim>\<open>func (r Replace) IsLocal() bool\<close>.\<close>

definition IsLocal :: "(string \<Rightarrow> bool) \<Rightarrow> Replace \<Rightarrow> bool" where
  "IsLocal isAbs r = IsLocalPath isAbs (New r)"

section \<open>The environment: files, output, and the imported collaborators\<close>

text \<open>Go \<^verbatim>\<open>error\<close> values carry a message.\<close>

datatype error = Error string

fun errMsg :: "error \<Rightarrow> string" where
  "errMsg (Error m) = m"

text \<open>
  What \<^verbatim>\<open>golang.org/x/mod/modfile\<close> hands to this repository: of a parsed file its
  replace directives, of a directive the old and new \<^verbatim>\<open>module.Version\<close> and the
  syntax line, of the line its suffix comments, of a comment its token.
\<close>

record module_Version =
  mv_Path :: string
  mv_Version :: string

record modfile_Comment =
  Token :: string

record modfile_Line =
  Suffix :: "modfile_Comment list"

record modfile_Replace =
  mf_Old :: module_Version
  mf_New :: module_Version
  mf_Syntax :: "modfile_Line option"

record modfile_File =
  mf_Replace :: "modfile_Replace list"

text \<open>The struct \<^verbatim>\<open>moduleInfo\<close> decoded from \<^verbatim>\<open>go list -m -json\<close>.\<close>

record moduleInfo =
  Path :: string
  Version :: string
  Dir :: string
  Main :: bool
  Indirect :: bool

text \<open>
  The struct \<^verbatim>\<open>Options\<close>; its field \<^verbatim>\<open>Dir\<close> is \<open>OptDir\<close> here, and its writer
  \<^verbatim>\<open>Output\<close> is the \<open>outputLines\<close> of the world below.
\<close>

record Options =
  OptDir :: string
  DryRun :: bool
  Verbose :: bool
  SkipTidy :: bool

text \<open>
  The state outside the program: the files by path, the paths that cannot be written,
  and the lines written so far to the output sink.
\<close>

record world =
  files :: "string \<rightharpoonup> string"
  readOnly :: "string set"
  outputLines :: "string list"

text \<open>
  The functions of the standard library, of imported modules and of the operating
  system that the code calls and whose results are not fixed by this repository:
  \<^verbatim>\<open>filepath.IsAbs\<close>, \<^verbatim>\<open>filepath.Join\<close> (of two elements), \<^verbatim>\<open>strings.TrimSpace\<close>,
  \<^verbatim>\<open>semver.Compare\<close>, \<^verbatim>\<open>modfile.Parse\<close>, \<^verbatim>\<open>os.Getwd\<close>, running an external
  command in a directory (its error, its standard output and the world it leaves), and
  the \<^verbatim>\<open>json.Decoder\<close> loop over the output of \<^verbatim>\<open>go list\<close>.
\<close>

record platform =
  IsAbs :: "string \<Rightarrow> bool"
  Join :: "string \<Rightarrow> string \<Rightarrow> string"
  TrimSpace :: "string \<Rightarrow> string"
  Compare :: "string \<Rightarrow> string \<Rightarrow> int"
  Parse :: "string \<Rightarrow> string \<Rightarrow> error + modfile_File"
  Getwd :: "world \<Rightarrow> error + string"
  Exec :: "world \<Rightarrow> string \<Rightarrow> string list \<Rightarrow> (error option \<times> string) \<times> world"
  Decode :: "string \<Rightarrow> error + moduleInfo list"

text \<open>\<^verbatim>\<open>os.ReadFile\<close> and \<^verbatim>\<open>os.WriteFile\<close>.\<close>

definition ReadFile :: "world \<Rightarrow> string \<Rightarrow> error + string" where
  "ReadFile w path =
     (case files w path of
        None \<Rightarrow> Inl (Error (''open '' @ path @ '': no such file or directory''))
      | Some data \<Rightarrow> Inr data)"

definition WriteFile :: "world \<Rightarrow> string \<Rightarrow> string \<Rightarrow> error option \<times> world" where
  "WriteFile w path data =
     (if path \<in> readOnly w
      then (Some (Error (''open '' @ path @ '': permission denied'')), w)
      else (None, w\<lparr>files := (files w)(path \<mapsto> data)\<rparr>))"

section \<open>Package gomod: reading a manifest\<close>

definition toReplace :: "modfile_Replace \<Rightarrow> Replace" where
  "toReplace r =
     \<lparr>Old = mv_Path (mf_Old r), New = mv_Path (mf_New r),
      OldVer = mv_Version (mf_Old r), NewVer = mv_Version (mf_New r), Source = []\<rparr>"

definition nonLocalStep :: "(string \<Rightarrow> bool) \<Rightarrow> Replace list \<Rightarrow> modfile_Replace \<Rightarrow> Replace list" where
  "nonLocalStep isAbs replaces r =
     (let rep = toReplace r in
      if \<not> IsLocal isAbs rep then replaces @ [rep] else replaces)"

definition ParseReplaces :: "platform \<Rightarrow> world \<Rightarrow> string \<Rightarrow> error + Replace list" where
  "ParseReplaces P w path =
     (case ReadFile w path of
        Inl err \<Rightarrow> Inl err
      | Inr data \<Rightarrow>
          (case Parse P path data of
             Inl err \<Rightarrow> Inl err
           | Inr f \<Rightarrow> Inr (foldl (nonLocalStep (IsAbs P)) [] (mf_Replace f))))"

text \<open>
  \<^verbatim>\<open>indexOf\<close>: the loop \<^verbatim>\<open>for i := 0; i <= len(s)-len(substr); i++\<close> over Go's signed
  integers, returning the first index where \<^verbatim>\<open>s[i:i+len(substr)] == substr\<close>, else -1.
\<close>

function indexOfFrom :: "nat \<Rightarrow> string \<Rightarrow> string \<Rightarrow> int" where
  "indexOfFrom i s substr =
     (if int i \<le> int (length s) - int (length substr)
      then (if take (length substr) (drop i s) = substr then int i
            else indexOfFrom (Suc i) s substr)
      else - 1)"
  by pat_completeness auto
termination
  by (relation "measure (\<lambda>(i, s, substr). Suc (length s) - i)") auto

declare indexOfFrom.simps [simp del]

definition indexOf :: "string \<Rightarrow> string \<Rightarrow> int" where
  "indexOf s substr = indexOfFrom 0 s substr"

definition sourceStep :: "platform \<Rightarrow> Replace \<Rightarrow> modfile_Comment \<Rightarrow> Replace" where
  "sourceStep P rep c =
     (let text = Token c in
      if 0 < length text then
        (let idx = indexOf text ''from:'' in
         if 0 \<le> idx then rep\<lparr>Source := TrimSpace P (drop (nat idx + 5) text)\<rparr> else rep)
      else rep)"

definition withSource :: "platform \<Rightarrow> modfile_Replace \<Rightarrow> Replace" where
  "withSource P r =
     (let rep = toReplace r in
      case mf_Syntax r of
        None \<Rightarrow> rep
      | Some line \<Rightarrow> foldl (sourceStep P) rep (Suffix line))"

definition annotatedStep :: "platform \<Rightarrow> Replace list \<Rightarrow> modfile_Replace \<Rightarrow> Replace list" where
  "annotatedStep P replaces r =
     (let rep = withSource P r in
      if Source rep \<noteq> [] then replaces @ [rep] else replaces)"

definition ParseReplacesWithSource :: "platform \<Rightarrow> world \<Rightarrow> string \<Rightarrow> error + Replace list" where
  "ParseReplacesWithSource P w path =
     (case ReadFile w path of
        Inl err \<Rightarrow> Inl err
      | Inr data \<Rightarrow>
          (case Parse P path data of
             Inl err \<Rightarrow> Inl err
           | Inr f \<Rightarrow> Inr (foldl (annotatedStep P) [] (mf_Replace f))))"

section \<open>Package sync\<close>

subsection \<open>Stale directives\<close>

text \<open>Reading a Go \<^verbatim>\<open>map[string]bool\<close>: a missing key reads as \<^verbatim>\<open>false\<close>.\<close>

definition lookupBool :: "(string \<rightharpoonup> bool) \<Rightarrow> string \<Rightarrow> bool" where
  "lookupBool m k = (case m k of None \<Rightarrow> False | Some b \<Rightarrow> b)"

definition findStaleReplaces ::
  "platform \<Rightarrow> world \<Rightarrow> string \<Rightarrow> Replace list \<Rightarrow> error + Replace list" where
  "findStaleReplaces P w dir current =
     (let goModPath = Join P dir ''go.mod'' in
      case ParseReplacesWithSource P w goModPath of
        Inl err \<Rightarrow> Inl err
      | Inr existing \<Rightarrow>
          (let currentKeys = foldl (\<lambda>m r. m(Old r \<mapsto> True)) Map.empty current;
               stale = foldl (\<lambda>acc r. if \<not> lookupBool currentKeys (Old r) then acc @ [r] else acc)
                         [] existing
           in Inr stale))"

subsection \<open>The provenance comment\<close>

text \<open>
  \<^verbatim>\<open>strings.Index\<close> (first index of the substring, or -1), \<^verbatim>\<open>strings.Contains\<close>
  (\<^verbatim>\<open>Index(s, substr) >= 0\<close>) and \<^verbatim>\<open>strings.Replace(s, old, new, 1)\<close>, which returns
  \<open>s\<close> with its first instance of \<open>old\<close> replaced by \<open>new\<close>.
\<close>

definition Index :: "string \<Rightarrow> string \<Rightarrow> int" where
  "Index s substr = indexOfFrom 0 s substr"

definition Contains :: "string \<Rightarrow> string \<Rightarrow> bool" where
  "Contains s substr \<longleftrightarrow> 0 \<le> Index s substr"

definition ReplaceFirst :: "string \<Rightarrow> string \<Rightarrow> string \<Rightarrow> string" where
  "ReplaceFirst s old new =
     (if old = new then s
      else (let j = Index s old in
            if j < 0 then s
            else take (nat j) s @ new @ drop (nat j + length old) s))"

definition commentPattern :: "Replace \<Rightarrow> string" where
  "commentPattern r = ''replace '' @ Old r @ '' => '' @ New r @ '' '' @ NewVer r"

definition sourceComment :: "Replace \<Rightarrow> string" where
  "sourceComment r = '' // from: '' @ Source r"

definition addSourceComment :: "platform \<Rightarrow> world \<Rightarrow> string \<Rightarrow> Replace \<Rightarrow> error option \<times> world" where
  "addSourceComment P w dir r =
     (let goModPath = Join P dir ''go.mod'' in
      case ReadFile w goModPath of
        Inl err \<Rightarrow> (Some err, w)
      | Inr data \<Rightarrow>
          (let pattern = commentPattern r;
               comment = sourceComment r;
               content = data
           in if Contains content pattern \<and> \<not> Contains content (pattern @ comment)
              then WriteFile w goModPath (ReplaceFirst content pattern (pattern @ comment))
              else (None, w)))"

subsection \<open>Run\<close>

text \<open>The closures \<^verbatim>\<open>log\<close> and \<^verbatim>\<open>verbose\<close>; each call writes one line.\<close>

definition log :: "string \<Rightarrow> world \<Rightarrow> world" where
  "log line w = w\<lparr>outputLines := outputLines w @ [line]\<rparr>"

definition verbose :: "Options \<Rightarrow> string \<Rightarrow> world \<Rightarrow> world" where
  "verbose opts line w = (if Verbose opts then log line w else w)"

text \<open>The verb \<^verbatim>\<open>%d\<close> on a length.\<close>

definition digitChar :: "nat \<Rightarrow> char" where
  "digitChar d = ''0123456789'' ! d"

fun showNat :: "nat \<Rightarrow> string" where
  "showNat n =
     (if n < 10 then [digitChar n]
      else showNat (n div 10) @ [digitChar (n mod 10)])"

declare showNat.simps [simp del]

definition goListArgs :: "string list" where
  "goListArgs = [''go'', ''list'', ''-m'', ''-json'', ''all'']"

definition listDirectDeps :: "platform \<Rightarrow> world \<Rightarrow> string \<Rightarrow> (error + moduleInfo list) \<times> world" where
  "listDirectDeps P w dir =
     (case Exec P w dir goListArgs of
        ((Some err, out), w') \<Rightarrow> (Inl err, w')
      | ((None, out), w') \<Rightarrow>
          (case Decode P out of
             Inl err \<Rightarrow> (Inl err, w')
           | Inr ms \<Rightarrow> (Inr (filter (\<lambda>m. \<not> Main m \<and> \<not> Indirect m) ms), w')))"

definition runCmd :: "platform \<Rightarrow> world \<Rightarrow> string \<Rightarrow> string list \<Rightarrow> error option \<times> world" where
  "runCmd P w dir argv = (case Exec P w dir argv of ((err, out), w') \<Rightarrow> (err, w'))"

text \<open>The body of the loop over the direct dependencies, and the loop.\<close>

definition collectStep ::
  "platform \<Rightarrow> Options \<Rightarrow> Replace list \<times> world \<Rightarrow> moduleInfo \<Rightarrow> Replace list \<times> world" where
  "collectStep P opts acc dep =
     (case acc of (allReplaces, w) \<Rightarrow>
        (let w1 = verbose opts (''Processing '' @ Path dep @ ''@'' @ Version dep) w in
         if Dir dep = [] then (allReplaces, verbose opts ''  skipping: no local dir'' w1)
         else
           (case ParseReplaces P w1 (Join P (Dir dep) ''go.mod'') of
              Inl err \<Rightarrow> (allReplaces, verbose opts (''  skipping: '' @ errMsg err) w1)
            | Inr replaces \<Rightarrow>
                (allReplaces @ map (\<lambda>r. r\<lparr>Source := Path dep\<rparr>) replaces, w1))))"

definition collectReplaces ::
  "platform \<Rightarrow> Options \<Rightarrow> moduleInfo list \<Rightarrow> world \<Rightarrow> Replace list \<times> world" where
  "collectReplaces P opts deps w = foldl (collectStep P opts) ([], w) deps"

text \<open>The dry-run branch: what would be applied and what would be removed.\<close>

definition dryRunReport :: "Replace list \<Rightarrow> Replace list \<Rightarrow> world \<Rightarrow> world" where
  "dryRunReport replaces stale w =
     (let w1 = (if 0 < length replaces
                then foldl (\<lambda>v r. log (''  '' @ Old r @ '' => '' @ New r @ '' '' @ NewVer r @
                                         '' // from: '' @ Source r) v)
                       (log (''Would apply '' @ showNat (length replaces) @
                             '' replace directives:'') w)
                       replaces
                else w)
      in if 0 < length stale
         then foldl (\<lambda>v r. log (''  '' @ Old r @ '' (was from: '' @ Source r @ '')'') v)
                (log (''Would remove '' @ showNat (length stale) @
                      '' stale replace directives:'') w1)
                stale
         else w1)"

text \<open>The loop applying the directives; it returns at the first failing command.\<close>

fun applyReplaces ::
  "platform \<Rightarrow> Options \<Rightarrow> string \<Rightarrow> Replace list \<Rightarrow> world \<Rightarrow> error option \<times> world" where
  "applyReplaces P opts dir [] w = (None, w)"
| "applyReplaces P opts dir (r # rs) w =
     (let arg = Old r @ ''='' @ New r @ ''@'' @ NewVer r in
      case runCmd P w dir [''go'', ''mod'', ''edit'', ''-replace='' @ arg] of
        (Some err, w1) \<Rightarrow>
          (Some (Error (''applying replace '' @ Old r @ '': '' @ errMsg err)), w1)
      | (None, w1) \<Rightarrow>
          (case addSourceComment P w1 dir r of
             (e, w2) \<Rightarrow>
               (let w3 = (case e of
                            Some err \<Rightarrow>
                              verbose opts (''warning: could not add source comment: '' @ errMsg err) w2
                          | None \<Rightarrow> w2);
                    w4 = log (''Applied: '' @ Old r @ '' => '' @ New r @ '' '' @ NewVer r @
                              '' // from: '' @ Source r) w3
                in applyReplaces P opts dir rs w4)))"

text \<open>The loop removing the stale directives.\<close>

fun removeStale :: "platform \<Rightarrow> string \<Rightarrow> Replace list \<Rightarrow> world \<Rightarrow> error option \<times> world" where
  "removeStale P dir [] w = (None, w)"
| "removeStale P dir (r # rs) w =
     (let arg = (if OldVer r \<noteq> [] then Old r @ ''@'' @ OldVer r else Old r) in
      case runCmd P w dir [''go'', ''mod'', ''edit'', ''-dropreplace='' @ arg] of
        (Some err, w1) \<Rightarrow>
          (Some (Error (''removing stale replace '' @ Old r @ '': '' @ errMsg err)), w1)
      | (None, w1) \<Rightarrow>
          removeStale P dir rs (log (''Removed stale: '' @ Old r @ '' (was from: '' @ Source r @ '')'') w1))"

text \<open>
  \<^verbatim>\<open>Run\<close> from the test \<^verbatim>\<open>len(replaces) == 0 && len(stale) == 0\<close> to its end, given the
  reconciled and the stale directives.
\<close>

definition syncChanges ::
  "platform \<Rightarrow> Options \<Rightarrow> string \<Rightarrow> Replace list \<Rightarrow> Replace list \<Rightarrow> world \<Rightarrow> error option \<times> world" where
  "syncChanges P opts dir replaces stale w =
     (if length replaces = 0 \<and> length stale = 0
      then (None, log ''No replace directives to sync'' w)
      else if DryRun opts then (None, dryRunReport replaces stale w)
      else
        (case applyReplaces P opts dir replaces w of
           (Some err, w1) \<Rightarrow> (Some err, w1)
         | (None, w1) \<Rightarrow>
             (case removeStale P dir stale w1 of
                (Some err, w2) \<Rightarrow> (Some err, w2)
              | (None, w2) \<Rightarrow>
                  if \<not> SkipTidy opts then
                    (case runCmd P (verbose opts ''Running go mod tidy...'' w2) dir
                            [''go'', ''mod'', ''tidy''] of
                       (Some err, w3) \<Rightarrow> (Some (Error (''go mod tidy: '' @ errMsg err)), w3)
                     | (None, w3) \<Rightarrow> (None, w3))
                  else (None, w2))))"

text \<open>The working directory: \<^verbatim>\<open>opts.Dir\<close>, or \<^verbatim>\<open>os.Getwd()\<close> when it is empty.\<close>

definition resolveDir :: "platform \<Rightarrow> Options \<Rightarrow> world \<Rightarrow> error + string" where
  "resolveDir P opts w = (if OptDir opts = [] then Getwd P w else Inr (OptDir opts))"

text \<open>
  The staleness step: a failure of \<open>findStaleReplaces\<close> leaves \<^verbatim>\<open>stale\<close> nil and
  writes a warning when verbose.
\<close>

definition detectStale ::
  "platform \<Rightarrow> Options \<Rightarrow> string \<Rightarrow> Replace list \<Rightarrow> world \<Rightarrow> Replace list \<times> world" where
  "detectStale P opts dir replaces w =
     (case findStaleReplaces P w dir replaces of
        Inl err \<Rightarrow>
          ([], verbose opts (''warning: could not check for stale replaces: '' @ errMsg err) w)
      | Inr stale \<Rightarrow> (stale, w))"

text \<open>
  \<^verbatim>\<open>Run\<close>. The argument \<open>ks\<close> is the order in which the runtime iterates the map
  inside \<open>Deduplicate\<close>.
\<close>

definition Run :: "platform \<Rightarrow> Options \<Rightarrow> string list \<Rightarrow> world \<Rightarrow> error option \<times> world" where
  "Run P opts ks w =
     (case resolveDir P opts w of
        Inl err \<Rightarrow> (Some err, w)
      | Inr dir \<Rightarrow>
          (case listDirectDeps P w dir of
             (Inl err, w1) \<Rightarrow> (Some (Error (''listing deps: '' @ errMsg err)), w1)
           | (Inr deps, w1) \<Rightarrow>
               (let w2 = verbose opts (''Found '' @ showNat (length deps) @
                                       '' direct dependencies'') w1 in
                case collectReplaces P opts deps w2 of
                  (allReplaces, w3) \<Rightarrow>
                    (let replaces = Deduplicate (Compare P) ks allReplaces in
                     case detectStale P opts dir replaces w3 of
                       (stale, w4) \<Rightarrow> syncChanges P opts dir replaces stale w4))))"

section \<open>Example data\<close>

text \<open>The two records of \<^verbatim>\<open>TestDeduplicate\<close>, and further records for the examples.\<close>

definition exFooV2 :: Replace where
  "exFooV2 = \<lparr>Old = ''github.com/foo'', New = ''github.com/bar'', OldVer = [],
     NewVer = ''v2.0.0'', Source = ''dep1''\<rparr>"

definition exFooV1 :: Replace where
  "exFooV1 = \<lparr>Old = ''github.com/foo'', New = ''github.com/bar'', OldVer = [],
     NewVer = ''v1.0.0'', Source = ''dep2''\<rparr>"

definition exFooV1' :: Replace where
  "exFooV1' = \<lparr>Old = ''github.com/foo'', New = ''github.com/bar'', OldVer = [],
     NewVer = ''v1.0.0'', Source = ''dep3''\<rparr>"

definition exBaz :: Replace where
  "exBaz = \<lparr>Old = ''github.com/baz'', New = ''github.com/new/baz'', OldVer = [],
     NewVer = ''v2.0.0'', Source = ''dep1''\<rparr>"

definition exAtPath :: Replace where
  "exAtPath = \<lparr>Old = ''m@v1.0.0'', New = ''x'', OldVer = [], NewVer = ''v1.0.0'',
     Source = ''dep1''\<rparr>"

definition exAtVer :: Replace where
  "exAtVer = \<lparr>Old = ''m'', New = ''y'', OldVer = ''v1.0.0'', NewVer = ''v1.0.0'',
     Source = ''dep2''\<rparr>"


text \<open>
  The manifests of the tests in \<^verbatim>\<open>sync_test.go\<close>, reduced to their replace lines: the
  dependency's manifest, the main manifest with a directive annotated by an earlier run,
  and the main manifest without one.
\<close>

definition exDepGoMod :: string where
  "exDepGoMod =
     ''replace github.com/old/module => github.com/new/module v1.0.0\<newline>'' @
     ''replace github.com/local/thing => ./local\<newline>''"

definition exDepFile :: modfile_File where
  "exDepFile = \<lparr>mf_Replace =
     [\<lparr>mf_Old = \<lparr>mv_Path = ''github.com/old/module'', mv_Version = []\<rparr>,
       mf_New = \<lparr>mv_Path = ''github.com/new/module'', mv_Version = ''v1.0.0''\<rparr>,
       mf_Syntax = Some \<lparr>Suffix = []\<rparr>\<rparr>,
      \<lparr>mf_Old = \<lparr>mv_Path = ''github.com/local/thing'', mv_Version = []\<rparr>,
       mf_New = \<lparr>mv_Path = ''./local'', mv_Version = []\<rparr>,
       mf_Syntax = Some \<lparr>Suffix = []\<rparr>\<rparr>]\<rparr>"

definition exMainGoMod :: string where
  "exMainGoMod =
     ''replace example.com/dep => ./dep\<newline>'' @
     ''replace github.com/stale/module => github.com/other/module v1.0.0 // from: example.com/dep\<newline>''"

definition exMainFile :: modfile_File where
  "exMainFile = \<lparr>mf_Replace =
     [\<lparr>mf_Old = \<lparr>mv_Path = ''example.com/dep'', mv_Version = []\<rparr>,
       mf_New = \<lparr>mv_Path = ''./dep'', mv_Version = []\<rparr>,
       mf_Syntax = Some \<lparr>Suffix = []\<rparr>\<rparr>,
      \<lparr>mf_Old = \<lparr>mv_Path = ''github.com/stale/module'', mv_Version = []\<rparr>,
       mf_New = \<lparr>mv_Path = ''github.com/other/module'', mv_Version = ''v1.0.0''\<rparr>,
       mf_Syntax = Some \<lparr>Suffix = [\<lparr>Token = ''// from: example.com/dep''\<rparr>]\<rparr>\<rparr>]\<rparr>"

definition exPlainGoMod :: string where
  "exPlainGoMod = ''replace example.com/dep => ./dep\<newline>''"

definition exPlainFile :: modfile_File where
  "exPlainFile = \<lparr>mf_Replace =
     [\<lparr>mf_Old = \<lparr>mv_Path = ''example.com/dep'', mv_Version = []\<rparr>,
       mf_New = \<lparr>mv_Path = ''./dep'', mv_Version = []\<rparr>,
       mf_Syntax = Some \<lparr>Suffix = []\<rparr>\<rparr>]\<rparr>"

text \<open>The records read from these manifests.\<close>

definition exOldModule :: Replace where
  "exOldModule = \<lparr>Old = ''github.com/old/module'', New = ''github.com/new/module'', OldVer = [],
     NewVer = ''v1.0.0'', Source = []\<rparr>"

definition exStale :: Replace where
  "exStale = \<lparr>Old = ''github.com/stale/module'', New = ''github.com/other/module'', OldVer = [],
     NewVer = ''v1.0.0'', Source = ''example.com/dep''\<rparr>"

text \<open>
  An example platform: a Unix host; a parser that knows the three manifests above and
  rejects every other text; \<^verbatim>\<open>go list\<close> reporting the main module and one direct
  dependency; \<^verbatim>\<open>go mod edit -replace\<close> appending the directive of the dependency to the
  manifest (an absent manifest counting as empty); every other command succeeding
  without effect.
\<close>

definition trimBlanks :: "string \<Rightarrow> string" where
  "trimBlanks s =
     rev (dropWhile (\<lambda>c. c = CHR '' '') (rev (dropWhile (\<lambda>c. c = CHR '' '') s)))"

definition exParse :: "string \<Rightarrow> string \<Rightarrow> error + modfile_File" where
  "exParse path data =
     (if data = exDepGoMod then Inr exDepFile
      else if data = exMainGoMod then Inr exMainFile
      else if data = exPlainGoMod then Inr exPlainFile
      else Inl (Error (path @ '': syntax error'')))"

definition exModules :: "moduleInfo list" where
  "exModules =
     [\<lparr>Path = ''example.com/test'', Version = [], Dir = ''/proj'', Main = True, Indirect = False\<rparr>,
      \<lparr>Path = ''example.com/dep'', Version = ''v0.0.0'', Dir = ''/proj/dep'', Main = False,
        Indirect = False\<rparr>]"

definition exDecode :: "string \<Rightarrow> error + moduleInfo list" where
  "exDecode out = (if out = ''modules'' then Inr exModules else Inl (Error ''invalid character''))"

definition exExec :: "world \<Rightarrow> string \<Rightarrow> string list \<Rightarrow> (error option \<times> string) \<times> world" where
  "exExec w dir argv =
     (if argv = goListArgs then ((None, ''modules''), w)
      else if argv = [''go'', ''mod'', ''edit'',
                      ''-replace=github.com/old/module=github.com/new/module@v1.0.0'']
      then ((None, []),
            w\<lparr>files := (files w)(dir @ ''/go.mod'' \<mapsto>
              (case files w (dir @ ''/go.mod'') of None \<Rightarrow> [] | Some d \<Rightarrow> d) @
              ''replace github.com/old/module => github.com/new/module v1.0.0\<newline>'')\<rparr>)
      else ((None, []), w))"

definition exPlatform :: platform where
  "exPlatform =
     \<lparr>IsAbs = IsAbs_unix, Join = (\<lambda>d f. d @ ''/'' @ f), TrimSpace = trimBlanks,
      Compare = coreCompare, Parse = exParse, Getwd = (\<lambda>w. Inr ''/proj''),
      Exec = exExec, Decode = exDecode\<rparr>"

definition exWorld :: world where
  "exWorld =
     \<lparr>files = [''/proj/go.mod'' \<mapsto> exMainGoMod, ''/proj/dep/go.mod'' \<mapsto> exDepGoMod],
      readOnly = {}, outputLines = []\<rparr>"

definition exBrokenWorld :: world where
  "exBrokenWorld =
     \<lparr>files = [''/proj/go.mod'' \<mapsto> ''<<<<<<< HEAD\<newline>'', ''/proj/dep/go.mod'' \<mapsto> exDepGoMod],
      readOnly = {}, outputLines = []\<rparr>"

definition exAppliedWorld :: world where
  "exAppliedWorld =
     \<lparr>files = [''/proj/go.mod'' \<mapsto>
        exPlainGoMod @ ''replace github.com/old/module => github.com/new/module v1.0.0\<newline>''],
      readOnly = {}, outputLines = []\<rparr>"

definition exDryRun :: Options where
  "exDryRun = \<lparr>OptDir = ''/proj'', DryRun = True, Verbose = False, SkipTidy = False\<rparr>"

definition exApply :: Options where
  "exApply = \<lparr>OptDir = [], DryRun = False, Verbose = True, SkipTidy = False\<rparr>"

text \<open>
  The record of the dependency's directive as Run stamps it, and the world after
  \<^verbatim>\<open>go mod edit\<close> and the annotation of that directive.
\<close>

definition exFromDep :: Replace where
  "exFromDep = \<lparr>Old = ''github.com/old/module'', New = ''github.com/new/module'', OldVer = [],
     NewVer = ''v1.0.0'', Source = ''example.com/dep''\<rparr>"

definition exAnnotatedWorld :: world where
  "exAnnotatedWorld =
     \<lparr>files = [''/proj/go.mod'' \<mapsto>
        exPlainGoMod @
        ''replace github.com/old/module => github.com/new/module v1.0.0 // from: example.com/dep\<newline>''],
      readOnly = {}, outputLines = []\<rparr>"

definition exPlainWorld :: world where
  "exPlainWorld =
     \<lparr>files = [''/proj/go.mod'' \<mapsto> exPlainGoMod, ''/proj/dep/go.mod'' \<mapsto> exDepGoMod],
      readOnly = {}, outputLines = []\<rparr>"

section \<open>Properties of Deduplicate\<close>

subsection \<open>The map built by the first loop\<close>


lemma byKeyOf_snoc: "byKeyOf cmp (rs @ [r]) = dedupStep cmp (byKeyOf cmp rs) r"
  by (simp add: byKeyOf_def)

lemma byKeyOf_Nil: "byKeyOf cmp [] = Map.empty"
  by (simp add: byKeyOf_def)

lemma dedupStep_other: "k \<noteq> dedupKey r \<Longrightarrow> dedupStep cmp m r k = m k"
  by (simp add: dedupStep_def Let_def split: option.splits)

lemma dedupStep_same:
  "dedupStep cmp m r (dedupKey r) =
     (case m (dedupKey r) of None \<Rightarrow> Some r
      | Some e \<Rightarrow> if lowerThan cmp (NewVer r) (NewVer e) then Some r else Some e)"
  by (simp add: dedupStep_def Let_def lowerThan_def split: option.splits)

lemma byKeyOf_None: "byKeyOf cmp rs k = None \<longleftrightarrow> k \<notin> dedupKey ` set rs"
proof (induction rs rule: rev_induct)
  case Nil
  show ?case by (simp add: byKeyOf_Nil)
next
  case (snoc r rs)
  show ?case
  proof (cases "k = dedupKey r")
    case True
    then show ?thesis
      by (simp add: byKeyOf_snoc dedupStep_same split: option.splits)
  next
    case False
    then show ?thesis using snoc
      by (simp add: byKeyOf_snoc dedupStep_other)
  qed
qed

lemma dom_byKeyOf: "dom (byKeyOf cmp rs) = dedupKey ` set rs"
  using byKeyOf_None [of cmp rs] by (auto simp: dom_def)

lemma byKeyOf_Some_key: "byKeyOf cmp rs k = Some w \<Longrightarrow> dedupKey w = k \<and> w \<in> set rs"
proof (induction rs arbitrary: w rule: rev_induct)
  case Nil
  then show ?case by (simp add: byKeyOf_Nil)
next
  case (snoc r rs)
  show ?case
  proof (cases "k = dedupKey r")
    case True
    with snoc show ?thesis
      by (auto simp: byKeyOf_snoc dedupStep_same split: option.splits if_splits)
  next
    case False
    with snoc show ?thesis
      by (auto simp: byKeyOf_snoc dedupStep_other)
  qed
qed

lemma byKeyOf_split:
  assumes ord: "versionOrder cmp" and w: "byKeyOf cmp rs k = Some w"
  shows "\<exists>pre post. rs = pre @ w # post \<and>
           (\<forall>r\<in>set pre. dedupKey r = k \<longrightarrow> lowerThan cmp (NewVer w) (NewVer r)) \<and>
           (\<forall>r\<in>set post. dedupKey r = k \<longrightarrow> \<not> lowerThan cmp (NewVer r) (NewVer w))"
  using w
proof (induction rs arbitrary: w rule: rev_induct)
  case Nil
  then show ?case by (simp add: byKeyOf_Nil)
next
  case (snoc r rs)
  from ord have trans: "\<And>a b c. lowerThan cmp a b \<Longrightarrow> lowerThan cmp b c \<Longrightarrow> lowerThan cmp a c"
    and neg: "\<And>a b c. lowerThan cmp a b \<Longrightarrow> lowerThan cmp a c \<or> lowerThan cmp c b"
    unfolding versionOrder_def by blast+
  show ?case
  proof (cases "k = dedupKey r")
    case False
    with snoc.prems have "byKeyOf cmp rs k = Some w"
      by (simp add: byKeyOf_snoc dedupStep_other)
    from snoc.IH [OF this] obtain pre post where
      "rs = pre @ w # post"
      "\<forall>r\<in>set pre. dedupKey r = k \<longrightarrow> lowerThan cmp (NewVer w) (NewVer r)"
      "\<forall>r\<in>set post. dedupKey r = k \<longrightarrow> \<not> lowerThan cmp (NewVer r) (NewVer w)"
      by blast
    with False have "rs @ [r] = pre @ w # (post @ [r]) \<and>
      (\<forall>r\<in>set pre. dedupKey r = k \<longrightarrow> lowerThan cmp (NewVer w) (NewVer r)) \<and>
      (\<forall>x\<in>set (post @ [r]). dedupKey x = k \<longrightarrow> \<not> lowerThan cmp (NewVer x) (NewVer w))"
      by auto
    then show ?thesis by blast
  next
    case True
    show ?thesis
    proof (cases "byKeyOf cmp rs k")
      case None
      with True snoc.prems have "w = r"
        by (simp add: byKeyOf_snoc dedupStep_same)
      moreover from None have "\<forall>x\<in>set rs. dedupKey x \<noteq> k"
        by (auto simp: byKeyOf_None)
      ultimately have "rs @ [r] = rs @ w # [] \<and>
        (\<forall>x\<in>set rs. dedupKey x = k \<longrightarrow> lowerThan cmp (NewVer w) (NewVer x)) \<and>
        (\<forall>x\<in>set []. dedupKey x = k \<longrightarrow> \<not> lowerThan cmp (NewVer x) (NewVer w))"
        by simp
      then show ?thesis by blast
    next
      case (Some e)
      from snoc.IH [OF Some] obtain pre post where
        rs: "rs = pre @ e # post" and
        pre: "\<forall>r\<in>set pre. dedupKey r = k \<longrightarrow> lowerThan cmp (NewVer e) (NewVer r)" and
        post: "\<forall>r\<in>set post. dedupKey r = k \<longrightarrow> \<not> lowerThan cmp (NewVer r) (NewVer e)"
        by blast
      show ?thesis
      proof (cases "lowerThan cmp (NewVer r) (NewVer e)")
        case lt: True
        with True Some snoc.prems have wr: "w = r"
          by (simp add: byKeyOf_snoc dedupStep_same)
        have "\<forall>x\<in>set rs. dedupKey x = k \<longrightarrow> lowerThan cmp (NewVer r) (NewVer x)"
        proof (intro ballI impI)
          fix x assume "x \<in> set rs" and kx: "dedupKey x = k"
          then consider "x \<in> set pre" | "x = e" | "x \<in> set post" using rs by auto
          then show "lowerThan cmp (NewVer r) (NewVer x)"
          proof cases
            case 1
            with pre kx have "lowerThan cmp (NewVer e) (NewVer x)" by blast
            with lt show ?thesis by (rule trans)
          next
            case 2
            with lt show ?thesis by simp
          next
            case 3
            with post kx have "\<not> lowerThan cmp (NewVer x) (NewVer e)" by blast
            with neg [OF lt, of "NewVer x"] show ?thesis by blast
          qed
        qed
        with wr have "rs @ [r] = rs @ w # [] \<and>
          (\<forall>x\<in>set rs. dedupKey x = k \<longrightarrow> lowerThan cmp (NewVer w) (NewVer x)) \<and>
          (\<forall>x\<in>set []. dedupKey x = k \<longrightarrow> \<not> lowerThan cmp (NewVer x) (NewVer w))"
          by simp
        then show ?thesis by blast
      next
        case nlt: False
        with True Some snoc.prems have we: "w = e"
          by (simp add: byKeyOf_snoc dedupStep_same)
        with rs pre post nlt True have "rs @ [r] = pre @ w # (post @ [r]) \<and>
          (\<forall>r\<in>set pre. dedupKey r = k \<longrightarrow> lowerThan cmp (NewVer w) (NewVer r)) \<and>
          (\<forall>x\<in>set (post @ [r]). dedupKey x = k \<longrightarrow> \<not> lowerThan cmp (NewVer x) (NewVer w))"
          by auto
        then show ?thesis by blast
      qed
    qed
  qed
qed

lemma rangeValues_map:
  "set ks \<subseteq> dom m \<Longrightarrow> rangeValues m ks = map (\<lambda>k. the (m k)) ks"
  by (induction ks) (auto simp: rangeValues_def)

lemma set_rangeValues: "iterOrder m ks \<Longrightarrow> set (rangeValues m ks) = ran m"
  by (auto simp: iterOrder_def rangeValues_map ran_def dom_def image_iff) (metis option.sel)+

lemma mset_rangeValues:
  "iterOrder m ks \<Longrightarrow> mset (rangeValues m ks) = image_mset (\<lambda>k. the (m k)) (mset_set (dom m))"
proof -
  assume io: "iterOrder m ks"
  then have "rangeValues m ks = map (\<lambda>k. the (m k)) ks"
    by (simp add: iterOrder_def rangeValues_map)
  moreover from io have "mset_set (dom m) = mset ks"
    using mset_set_set [of ks] by (simp add: iterOrder_def)
  ultimately show ?thesis by simp
qed

lemma coreCompare_order: "versionOrder coreCompare"
  unfolding versionOrder_def lowerThan_def coreCompare_def coreLess_def
  by (auto split: option.splits if_splits)



lemma Deduplicate_keys:
  assumes "iterOrder (byKeyOf cmp rs) ks"
  shows "map dedupKey (Deduplicate cmp ks rs) = ks"
proof -
  from assms have sub: "set ks \<subseteq> dom (byKeyOf cmp rs)" by (simp add: iterOrder_def)
  have "\<forall>k\<in>set ks. dedupKey (the (byKeyOf cmp rs k)) = k"
  proof
    fix k assume "k \<in> set ks"
    with sub obtain w where "byKeyOf cmp rs k = Some w" by auto
    then show "dedupKey (the (byKeyOf cmp rs k)) = k"
      using byKeyOf_Some_key [of cmp rs k w] by simp
  qed
  then have "map (\<lambda>k. dedupKey (the (byKeyOf cmp rs k))) ks = ks"
    by (simp add: map_idI)
  with sub show ?thesis
    by (simp add: Deduplicate_def rangeValues_map o_def)
qed

lemma Deduplicate_mem:
  assumes "iterOrder (byKeyOf cmp rs) ks"
  shows "w \<in> set (Deduplicate cmp ks rs) \<longleftrightarrow> byKeyOf cmp rs (dedupKey w) = Some w"
proof -
  from assms have "set (Deduplicate cmp ks rs) = ran (byKeyOf cmp rs)"
    by (simp add: Deduplicate_def set_rangeValues)
  then show ?thesis
    using byKeyOf_Some_key [of cmp rs _ w] by (auto simp: ran_def)
qed

lemma Deduplicate_subset: "set (Deduplicate cmp ks rs) \<subseteq> set rs"
proof
  fix w assume "w \<in> set (Deduplicate cmp ks rs)"
  then obtain k where "byKeyOf cmp rs k = Some w"
    by (auto simp: Deduplicate_def rangeValues_def List.map_filter_def)
  then show "w \<in> set rs" using byKeyOf_Some_key by blast
qed

lemma byKeyOf_distinct:
  "distinct (map dedupKey xs) \<Longrightarrow> ran (byKeyOf cmp xs) = set xs"
proof (induction xs rule: rev_induct)
  case Nil
  show ?case by (simp add: byKeyOf_Nil)
next
  case (snoc r xs)
  then have fresh: "byKeyOf cmp xs (dedupKey r) = None"
    by (auto simp: byKeyOf_None)
  then have "byKeyOf cmp (xs @ [r]) = (byKeyOf cmp xs)(dedupKey r \<mapsto> r)"
    by (simp add: byKeyOf_snoc dedupStep_def)
  moreover have "ran ((byKeyOf cmp xs)(dedupKey r \<mapsto> r)) = insert r (ran (byKeyOf cmp xs))"
    using fresh by (rule ran_map_upd)
  moreover have "ran (byKeyOf cmp xs) = set xs" using snoc by simp
  ultimately show ?case by (simp only: set_append list.set) auto
qed

lemma find_first_min:
  assumes "\<forall>x\<in>set pre. \<not> P x" and "P w"
  shows "List.find P (pre @ w # post) = Some w"
  using assms by (induction pre) auto

lemma byKeyOf_first_min:
  assumes ord: "versionOrder cmp" and w: "byKeyOf cmp rs k = Some w"
  shows "List.find (\<lambda>r. \<forall>x\<in>set (filter (\<lambda>r. dedupKey r = k) rs). \<not> lowerThan cmp (NewVer x) (NewVer r))
           (filter (\<lambda>r. dedupKey r = k) rs) = Some w"
proof -
  from ord have irrefl: "\<And>a. \<not> lowerThan cmp a a"
    and trans: "\<And>a b c. lowerThan cmp a b \<Longrightarrow> lowerThan cmp b c \<Longrightarrow> lowerThan cmp a c"
    unfolding versionOrder_def by blast+
  from byKeyOf_split [OF ord w] obtain pre post where
    rs: "rs = pre @ w # post" and
    pre: "\<forall>r\<in>set pre. dedupKey r = k \<longrightarrow> lowerThan cmp (NewVer w) (NewVer r)" and
    post: "\<forall>r\<in>set post. dedupKey r = k \<longrightarrow> \<not> lowerThan cmp (NewVer r) (NewVer w)"
    by blast
  from w have kw: "dedupKey w = k" using byKeyOf_Some_key by blast
  let ?G = "filter (\<lambda>r. dedupKey r = k) rs"
  let ?P = "\<lambda>r. \<forall>x\<in>set ?G. \<not> lowerThan cmp (NewVer x) (NewVer r)"
  have G: "?G = filter (\<lambda>r. dedupKey r = k) pre @ w # filter (\<lambda>r. dedupKey r = k) post"
    using rs kw by simp
  have "\<forall>x\<in>set (filter (\<lambda>r. dedupKey r = k) pre). \<not> ?P x"
  proof
    fix x assume "x \<in> set (filter (\<lambda>r. dedupKey r = k) pre)"
    with pre have "lowerThan cmp (NewVer w) (NewVer x)" by simp
    moreover have "w \<in> set ?G" using rs kw by simp
    ultimately show "\<not> ?P x" by blast
  qed
  moreover have "?P w"
  proof
    fix x assume "x \<in> set ?G"
    then consider "x \<in> set pre" "dedupKey x = k" | "x = w" | "x \<in> set post" "dedupKey x = k"
      using rs kw by auto
    then show "\<not> lowerThan cmp (NewVer x) (NewVer w)"
    proof cases
      case 1
      with pre have "lowerThan cmp (NewVer w) (NewVer x)" by blast
      then show ?thesis using trans irrefl by blast
    next
      case 2
      then show ?thesis using irrefl by simp
    next
      case 3
      with post show ?thesis by blast
    qed
  qed
  ultimately have "List.find ?P (filter (\<lambda>r. dedupKey r = k) pre @ w # filter (\<lambda>r. dedupKey r = k) post) = Some w"
    by (rule find_first_min)
  with G show ?thesis by simp
qed

lemma dedupKey_eq_iff:
  assumes "CHR ''@'' \<notin> set (Old x)" and "CHR ''@'' \<notin> set (Old r)"
  shows "dedupKey x = dedupKey r \<longleftrightarrow> groupKey x = groupKey r"
proof -
  have "Old x @ CHR ''@'' # OldVer x = Old r @ CHR ''@'' # OldVer r \<longleftrightarrow>
          Old x = Old r \<and> OldVer x = OldVer r"
  proof
    assume eq: "Old x @ CHR ''@'' # OldVer x = Old r @ CHR ''@'' # OldVer r"
    have "takeWhile (\<lambda>c. c \<noteq> CHR ''@'') (Old x @ CHR ''@'' # OldVer x) = Old x"
      using assms(1) by (subst takeWhile_append2) auto
    moreover have "takeWhile (\<lambda>c. c \<noteq> CHR ''@'') (Old r @ CHR ''@'' # OldVer r) = Old r"
      using assms(2) by (subst takeWhile_append2) auto
    ultimately have "Old x = Old r" using eq by simp
    with eq show "Old x = Old r \<and> OldVer x = OldVer r" by simp
  qed simp
  moreover have "Old x \<noteq> Old r @ CHR ''@'' # OldVer r"
  proof
    assume "Old x = Old r @ CHR ''@'' # OldVer r"
    then have "CHR ''@'' \<in> set (Old x)" by simp
    with assms(1) show False by simp
  qed
  moreover have "Old x @ CHR ''@'' # OldVer x \<noteq> Old r"
  proof
    assume "Old x @ CHR ''@'' # OldVer x = Old r"
    then have "set (Old r) = set (Old x @ CHR ''@'' # OldVer x)" by simp
    then have "CHR ''@'' \<in> set (Old r)" by simp
    with assms(2) show False by simp
  qed
  ultimately show ?thesis
    by (auto simp: dedupKey_def groupKey_def)
qed

lemma filter_distinct_key:
  "distinct (map f xs) \<Longrightarrow> x \<in> set xs \<Longrightarrow> filter (\<lambda>y. f y = f x) xs = [x]"
proof (induction xs)
  case Nil
  then show ?case by simp
next
  case (Cons a xs)
  show ?case
  proof (cases "x = a")
    case True
    with Cons.prems have "f x \<notin> f ` set xs" by simp
    then have "\<forall>y\<in>set xs. f y \<noteq> f x" by (metis imageI)
    then have "filter (\<lambda>y. f y = f x) xs = []" by (simp add: filter_empty_conv)
    with True show ?thesis by simp
  next
    case False
    with Cons show ?thesis by auto
  qed
qed


subsection \<open>Evaluation of the examples\<close>

lemmas ex_defs =
  exFooV2_def exFooV1_def exFooV1'_def exBaz_def exAtPath_def exAtVer_def

lemmas dedup_defs =
  iterOrder_def byKeyOf_def dedupStep_def dedupKey_def Deduplicate_def rangeValues_def Let_def

lemmas core_defs = coreCompare_def coreLess_def parseCore_def parseNum_def isDigit_def

lemma coreCompare_examples:
  "coreCompare ''v1.0.0'' ''v2.0.0'' = - 1"
  "coreCompare ''v1.10.0'' ''v1.9.0'' = 1"
  "coreCompare ''v1.0.0'' ''v1.0.0'' = 0"
  by (simp_all add: core_defs)

lemma Deduplicate_test:
  "Deduplicate coreCompare [''github.com/foo''] [exFooV2, exFooV1] = [exFooV1]"
  by (simp add: dedup_defs ex_defs core_defs)

subsection \<open>Order of the result\<close>

text \<open>
  C1 (as stated): two invocations of Deduplicate on the same input return the same list
  in the same order. The second loop ranges over a Go map, whose iteration order is not
  fixed: on the input of two records with different keys both orders are possible, and
  they give different lists.
\<close>

theorem Deduplicate_order_counterexample:
  "iterOrder (byKeyOf coreCompare [exFooV1, exBaz]) [''github.com/foo'', ''github.com/baz''] \<and>
   iterOrder (byKeyOf coreCompare [exFooV1, exBaz]) [''github.com/baz'', ''github.com/foo''] \<and>
   Deduplicate coreCompare [''github.com/foo'', ''github.com/baz''] [exFooV1, exBaz] \<noteq>
   Deduplicate coreCompare [''github.com/baz'', ''github.com/foo''] [exFooV1, exBaz]"
  by (simp add: dedup_defs ex_defs insert_commute)

text \<open>
  C1 (amended): two invocations of Deduplicate on the same input return the same records
  with the same multiplicities, whatever order the runtime iterates the map in; only the
  order of the list may differ.
\<close>

theorem Deduplicate_same_records:
  assumes "iterOrder (byKeyOf cmp rs) ks1" and "iterOrder (byKeyOf cmp rs) ks2"
  shows "mset (Deduplicate cmp ks1 rs) = mset (Deduplicate cmp ks2 rs)"
  using assms by (simp add: Deduplicate_def mset_rangeValues)

theorem Deduplicate_same_records_witness:
  "mset (Deduplicate coreCompare [''github.com/foo'', ''github.com/baz''] [exFooV1, exBaz]) =
   mset (Deduplicate coreCompare [''github.com/baz'', ''github.com/foo''] [exFooV1, exBaz])"
proof -
  have a: "iterOrder (byKeyOf coreCompare [exFooV1, exBaz]) [''github.com/foo'', ''github.com/baz'']"
    by (simp add: dedup_defs ex_defs insert_commute)
  have b: "iterOrder (byKeyOf coreCompare [exFooV1, exBaz]) [''github.com/baz'', ''github.com/foo'']"
    by (simp add: dedup_defs ex_defs insert_commute)
  show ?thesis by (rule Deduplicate_same_records [OF a b])
qed

subsection \<open>Idempotence\<close>

text \<open>
  C8: Deduplicate is idempotent up to set equality: the records of
  \<open>Deduplicate (Deduplicate x)\<close> are the records of \<open>Deduplicate x\<close>, for every
  iteration order of the two calls.
\<close>

theorem Deduplicate_idempotent:
  assumes "iterOrder (byKeyOf cmp rs) ks"
    and "iterOrder (byKeyOf cmp (Deduplicate cmp ks rs)) ks'"
  shows "set (Deduplicate cmp ks' (Deduplicate cmp ks rs)) = set (Deduplicate cmp ks rs)"
proof -
  from assms(1) have "distinct (map dedupKey (Deduplicate cmp ks rs))"
    by (simp add: Deduplicate_keys iterOrder_def)
  then have "ran (byKeyOf cmp (Deduplicate cmp ks rs)) = set (Deduplicate cmp ks rs)"
    by (rule byKeyOf_distinct)
  moreover from assms(2)
  have "set (Deduplicate cmp ks' (Deduplicate cmp ks rs)) = ran (byKeyOf cmp (Deduplicate cmp ks rs))"
    by (simp add: Deduplicate_def [of cmp ks'] set_rangeValues)
  ultimately show ?thesis by simp
qed

theorem Deduplicate_idempotent_witness:
  "set (Deduplicate coreCompare [''github.com/baz'', ''github.com/foo'']
         (Deduplicate coreCompare [''github.com/foo'', ''github.com/baz''] [exFooV2, exBaz, exFooV1])) =
   set (Deduplicate coreCompare [''github.com/foo'', ''github.com/baz''] [exFooV2, exBaz, exFooV1])"
proof -
  have a: "iterOrder (byKeyOf coreCompare [exFooV2, exBaz, exFooV1]) [''github.com/foo'', ''github.com/baz'']"
    by (simp add: dedup_defs ex_defs core_defs insert_commute)
  have b: "iterOrder (byKeyOf coreCompare
       (Deduplicate coreCompare [''github.com/foo'', ''github.com/baz''] [exFooV2, exBaz, exFooV1]))
       [''github.com/baz'', ''github.com/foo'']"
    by (simp add: dedup_defs ex_defs core_defs insert_commute)
  show ?thesis by (rule Deduplicate_idempotent [OF a b])
qed

subsection \<open>One record per key, of the lowest version\<close>

lemma groupKey_imp_dedupKey: "groupKey x = groupKey y \<Longrightarrow> dedupKey x = dedupKey y"
  by (simp add: groupKey_def dedupKey_def)

lemma at_free_keysDeterminePairs:
  assumes "\<forall>r\<in>set rs. CHR ''@'' \<notin> set (Old r)"
  shows "keysDeterminePairs rs"
  unfolding keysDeterminePairs_def
proof (intro ballI impI)
  fix x y assume "x \<in> set rs" "y \<in> set rs" and eq: "dedupKey x = dedupKey y"
  with assms have "CHR ''@'' \<notin> set (Old x)" "CHR ''@'' \<notin> set (Old y)" by blast+
  from dedupKey_eq_iff [OF this] eq show "groupKey x = groupKey y" by blast
qed

lemma group_filter:
  assumes det: "keysDeterminePairs rs" and r: "r \<in> set rs" and sub: "set xs \<subseteq> set rs"
  shows "filter (\<lambda>x. groupKey x = groupKey r) xs = filter (\<lambda>x. dedupKey x = dedupKey r) xs"
proof (rule filter_cong [OF refl])
  fix x assume "x \<in> set xs"
  with sub have "x \<in> set rs" by blast
  with det r have "dedupKey x = dedupKey r \<longrightarrow> groupKey x = groupKey r"
    unfolding keysDeterminePairs_def by blast
  then show "(groupKey x = groupKey r) = (dedupKey x = dedupKey r)"
    using groupKey_imp_dedupKey by blast
qed

lemma Deduplicate_group:
  assumes io: "iterOrder (byKeyOf cmp rs) ks" and r: "r \<in> set rs"
  shows "\<exists>w. byKeyOf cmp rs (dedupKey r) = Some w \<and>
             filter (\<lambda>x. dedupKey x = dedupKey r) (Deduplicate cmp ks rs) = [w]"
proof -
  from r have "dedupKey r \<in> dom (byKeyOf cmp rs)" by (simp add: dom_byKeyOf)
  then obtain w where w: "byKeyOf cmp rs (dedupKey r) = Some w" by auto
  then have kw: "dedupKey w = dedupKey r" using byKeyOf_Some_key by blast
  with w io have mem: "w \<in> set (Deduplicate cmp ks rs)" by (simp add: Deduplicate_mem)
  from io have "distinct (map dedupKey (Deduplicate cmp ks rs))"
    by (simp add: Deduplicate_keys iterOrder_def)
  from filter_distinct_key [OF this mem] kw w show ?thesis by simp
qed

lemma byKeyOf_lowest:
  assumes ord: "versionOrder cmp" and w: "byKeyOf cmp rs k = Some w"
  shows "\<forall>x\<in>set rs. dedupKey x = k \<longrightarrow> \<not> lowerThan cmp (NewVer x) (NewVer w)"
proof -
  from byKeyOf_first_min [OF ord w]
  have "\<forall>x\<in>set (filter (\<lambda>x. dedupKey x = k) rs). \<not> lowerThan cmp (NewVer x) (NewVer w)"
    by (auto simp: find_Some_iff)
  then show ?thesis by simp
qed

text \<open>
  C2 (as stated): for every input list and every group of records sharing the pair
  (OldTarget, OldConstraint), Deduplicate returns exactly one record of the group. The
  code keys its map by the string \<^verbatim>\<open>Old\<close> or \<^verbatim>\<open>Old@OldVer\<close>, so the pairs
  \<^verbatim>\<open>("m@v1.0.0", "")\<close> and \<^verbatim>\<open>("m", "v1.0.0")\<close> share one entry: the second group has no
  record in the result.
\<close>

theorem Deduplicate_key_collision_counterexample:
  "iterOrder (byKeyOf coreCompare [exAtPath, exAtVer]) [''m@v1.0.0''] \<and>
   groupKey exAtPath \<noteq> groupKey exAtVer \<and>
   filter (\<lambda>w. groupKey w = groupKey exAtVer)
     (Deduplicate coreCompare [''m@v1.0.0''] [exAtPath, exAtVer]) = []"
  by (simp add: dedup_defs ex_defs core_defs groupKey_def)

text \<open>
  C2 (amended): for every input list and every group of records sharing the key string
  of the code (\<^verbatim>\<open>Old\<close>, or \<^verbatim>\<open>Old@OldVer\<close> when the constraint is not empty), Deduplicate
  returns exactly one record of the group; it is one of the group's candidates, and no
  candidate of the group has a NewVersion that compares lower than its own; in
  particular, when \<^verbatim>\<open>v1.0.0\<close> compares lower than \<^verbatim>\<open>v2.0.0\<close> and a candidate carries
  \<^verbatim>\<open>v1.0.0\<close>, the result does not carry \<^verbatim>\<open>v2.0.0\<close>. Whenever records of the input with
  equal key strings have equal pairs (OldTarget, OldConstraint), all of this holds for
  the groups of records sharing the pair.
\<close>

theorem Deduplicate_lowest_version:
  assumes ord: "versionOrder cmp"
    and io: "iterOrder (byKeyOf cmp rs) ks"
    and r: "r \<in> set rs"
  shows "\<exists>w. filter (\<lambda>x. dedupKey x = dedupKey r) (Deduplicate cmp ks rs) = [w] \<and>
             w \<in> set rs \<and> dedupKey w = dedupKey r \<and>
             (\<forall>x\<in>set rs. dedupKey x = dedupKey r \<longrightarrow> \<not> lowerThan cmp (NewVer x) (NewVer w)) \<and>
             (lowerThan cmp ''v1.0.0'' ''v2.0.0'' \<longrightarrow>
                (\<exists>x\<in>set rs. dedupKey x = dedupKey r \<and> NewVer x = ''v1.0.0'') \<longrightarrow>
                NewVer w \<noteq> ''v2.0.0'') \<and>
             (keysDeterminePairs rs \<longrightarrow>
                filter (\<lambda>x. groupKey x = groupKey r) (Deduplicate cmp ks rs) = [w] \<and>
                groupKey w = groupKey r \<and>
                (\<forall>x\<in>set rs. groupKey x = groupKey r \<longrightarrow>
                    \<not> lowerThan cmp (NewVer x) (NewVer w)) \<and>
                (lowerThan cmp ''v1.0.0'' ''v2.0.0'' \<longrightarrow>
                   (\<exists>x\<in>set rs. groupKey x = groupKey r \<and> NewVer x = ''v1.0.0'') \<longrightarrow>
                   NewVer w \<noteq> ''v2.0.0''))"
proof -
  from Deduplicate_group [OF io r] obtain w where
    w: "byKeyOf cmp rs (dedupKey r) = Some w" and
    f: "filter (\<lambda>x. dedupKey x = dedupKey r) (Deduplicate cmp ks rs) = [w]"
    by blast
  from w have kw: "dedupKey w = dedupKey r" and wrs: "w \<in> set rs"
    using byKeyOf_Some_key by blast+
  have low: "\<forall>x\<in>set rs. dedupKey x = dedupKey r \<longrightarrow> \<not> lowerThan cmp (NewVer x) (NewVer w)"
    by (rule byKeyOf_lowest [OF ord w])
  have v1: "lowerThan cmp ''v1.0.0'' ''v2.0.0'' \<longrightarrow>
               (\<exists>x\<in>set rs. dedupKey x = dedupKey r \<and> NewVer x = ''v1.0.0'') \<longrightarrow>
               NewVer w \<noteq> ''v2.0.0''"
  proof (intro impI notI)
    assume lt: "lowerThan cmp ''v1.0.0'' ''v2.0.0''"
      and ex: "\<exists>x\<in>set rs. dedupKey x = dedupKey r \<and> NewVer x = ''v1.0.0''"
      and eq: "NewVer w = ''v2.0.0''"
    from ex obtain x where x: "x \<in> set rs" "dedupKey x = dedupKey r" and nx: "NewVer x = ''v1.0.0''"
      by blast
    from low x have "\<not> lowerThan cmp (NewVer x) (NewVer w)" by blast
    moreover have "lowerThan cmp (NewVer x) (NewVer w)"
      by (subst nx, subst eq) (rule lt)
    ultimately show False by (rule notE)
  qed
  have gw: "groupKey w = groupKey r" if det: "keysDeterminePairs rs"
    using det wrs r kw unfolding keysDeterminePairs_def by blast
  have f': "filter (\<lambda>x. groupKey x = groupKey r) (Deduplicate cmp ks rs) = [w]"
    if det: "keysDeterminePairs rs"
    using group_filter [OF det r Deduplicate_subset] f by simp
  have low': "\<forall>x\<in>set rs. groupKey x = groupKey r \<longrightarrow> \<not> lowerThan cmp (NewVer x) (NewVer w)"
    using low groupKey_imp_dedupKey by blast
  have v1': "lowerThan cmp ''v1.0.0'' ''v2.0.0'' \<longrightarrow>
               (\<exists>x\<in>set rs. groupKey x = groupKey r \<and> NewVer x = ''v1.0.0'') \<longrightarrow>
               NewVer w \<noteq> ''v2.0.0''"
  proof (intro impI notI)
    assume lt: "lowerThan cmp ''v1.0.0'' ''v2.0.0''"
      and ex: "\<exists>x\<in>set rs. groupKey x = groupKey r \<and> NewVer x = ''v1.0.0''"
      and eq: "NewVer w = ''v2.0.0''"
    from ex obtain x where x: "x \<in> set rs" "groupKey x = groupKey r" and nx: "NewVer x = ''v1.0.0''"
      by blast
    from low' x have "\<not> lowerThan cmp (NewVer x) (NewVer w)" by blast
    moreover have "lowerThan cmp (NewVer x) (NewVer w)"
      by (subst nx, subst eq) (rule lt)
    ultimately show False by (rule notE)
  qed
  have pairs: "keysDeterminePairs rs \<longrightarrow>
                filter (\<lambda>x. groupKey x = groupKey r) (Deduplicate cmp ks rs) = [w] \<and>
                groupKey w = groupKey r \<and>
                (\<forall>x\<in>set rs. groupKey x = groupKey r \<longrightarrow>
                    \<not> lowerThan cmp (NewVer x) (NewVer w)) \<and>
                (lowerThan cmp ''v1.0.0'' ''v2.0.0'' \<longrightarrow>
                   (\<exists>x\<in>set rs. groupKey x = groupKey r \<and> NewVer x = ''v1.0.0'') \<longrightarrow>
                   NewVer w \<noteq> ''v2.0.0'')"
  proof
    assume det: "keysDeterminePairs rs"
    show "filter (\<lambda>x. groupKey x = groupKey r) (Deduplicate cmp ks rs) = [w] \<and>
                groupKey w = groupKey r \<and>
                (\<forall>x\<in>set rs. groupKey x = groupKey r \<longrightarrow>
                    \<not> lowerThan cmp (NewVer x) (NewVer w)) \<and>
                (lowerThan cmp ''v1.0.0'' ''v2.0.0'' \<longrightarrow>
                   (\<exists>x\<in>set rs. groupKey x = groupKey r \<and> NewVer x = ''v1.0.0'') \<longrightarrow>
                   NewVer w \<noteq> ''v2.0.0'')"
      by (intro conjI) (rule f' [OF det], rule gw [OF det], rule low', rule v1')
  qed
  show ?thesis
    by (rule exI [of _ w], intro conjI) (rule f, rule wrs, rule kw, rule low, rule v1, rule pairs)
qed

theorem Deduplicate_lowest_version_witness:
  "Deduplicate coreCompare [''github.com/foo''] [exFooV2, exFooV1] = [exFooV1] \<and>
   NewVer exFooV1 = ''v1.0.0'' \<and>
   keysDeterminePairs [exFooV2, exFooV1] \<and>
   lowerThan coreCompare ''v1.0.0'' ''v2.0.0'' \<and>
   (\<exists>w. filter (\<lambda>x. dedupKey x = dedupKey exFooV2)
          (Deduplicate coreCompare [''github.com/foo''] [exFooV2, exFooV1]) = [w] \<and>
        w \<in> set [exFooV2, exFooV1] \<and> dedupKey w = dedupKey exFooV2 \<and>
        (\<forall>x\<in>set [exFooV2, exFooV1]. dedupKey x = dedupKey exFooV2 \<longrightarrow>
            \<not> lowerThan coreCompare (NewVer x) (NewVer w)) \<and>
        (lowerThan coreCompare ''v1.0.0'' ''v2.0.0'' \<longrightarrow>
           (\<exists>x\<in>set [exFooV2, exFooV1]. dedupKey x = dedupKey exFooV2 \<and> NewVer x = ''v1.0.0'') \<longrightarrow>
           NewVer w \<noteq> ''v2.0.0'') \<and>
        (keysDeterminePairs [exFooV2, exFooV1] \<longrightarrow>
           filter (\<lambda>x. groupKey x = groupKey exFooV2)
             (Deduplicate coreCompare [''github.com/foo''] [exFooV2, exFooV1]) = [w] \<and>
           groupKey w = groupKey exFooV2 \<and>
           (\<forall>x\<in>set [exFooV2, exFooV1]. groupKey x = groupKey exFooV2 \<longrightarrow>
               \<not> lowerThan coreCompare (NewVer x) (NewVer w)) \<and>
           (lowerThan coreCompare ''v1.0.0'' ''v2.0.0'' \<longrightarrow>
              (\<exists>x\<in>set [exFooV2, exFooV1]. groupKey x = groupKey exFooV2 \<and> NewVer x = ''v1.0.0'') \<longrightarrow>
              NewVer w \<noteq> ''v2.0.0'')))"
proof -
  have b: "iterOrder (byKeyOf coreCompare [exFooV2, exFooV1]) [''github.com/foo'']"
    by (simp add: dedup_defs ex_defs core_defs)
  have c: "exFooV2 \<in> set [exFooV2, exFooV1]" by simp
  have d: "Deduplicate coreCompare [''github.com/foo''] [exFooV2, exFooV1] = [exFooV1]"
    by (simp add: dedup_defs ex_defs core_defs)
  have e: "NewVer exFooV1 = ''v1.0.0''" by (simp add: ex_defs)
  have g: "keysDeterminePairs [exFooV2, exFooV1]"
    by (simp add: keysDeterminePairs_def dedupKey_def groupKey_def ex_defs)
  have h: "lowerThan coreCompare ''v1.0.0'' ''v2.0.0''"
    by (simp add: lowerThan_def core_defs)
  show ?thesis
    by (intro conjI)
      (rule d, rule e, rule g, rule h, rule Deduplicate_lowest_version [OF coreCompare_order b c])
qed

subsection \<open>Ties\<close>

text \<open>
  C9: within a group of records sharing the key that Deduplicate computes, the record
  retained is the earliest record of the group, in input order, than whose NewVersion no
  NewVersion of the group compares lower: when several records tie at the group's
  minimum the first of them is kept, and a later record of an equal version never
  displaces it. Whenever records of the input with equal key strings have equal pairs
  (OldTarget, OldConstraint), the same holds for the groups of records sharing the pair.
\<close>

theorem Deduplicate_earliest_minimum:
  assumes ord: "versionOrder cmp"
    and io: "iterOrder (byKeyOf cmp rs) ks"
    and r: "r \<in> set rs"
  shows "\<exists>w. filter (\<lambda>x. dedupKey x = dedupKey r) (Deduplicate cmp ks rs) = [w] \<and>
          List.find (\<lambda>c. \<forall>x\<in>set (filter (\<lambda>x. dedupKey x = dedupKey r) rs).
                        \<not> lowerThan cmp (NewVer x) (NewVer c))
            (filter (\<lambda>x. dedupKey x = dedupKey r) rs) = Some w \<and>
          (keysDeterminePairs rs \<longrightarrow>
             filter (\<lambda>x. groupKey x = groupKey r) (Deduplicate cmp ks rs) = [w] \<and>
             List.find (\<lambda>c. \<forall>x\<in>set (filter (\<lambda>x. groupKey x = groupKey r) rs).
                           \<not> lowerThan cmp (NewVer x) (NewVer c))
               (filter (\<lambda>x. groupKey x = groupKey r) rs) = Some w)"
proof -
  from Deduplicate_group [OF io r] obtain w where
    w: "byKeyOf cmp rs (dedupKey r) = Some w" and
    f: "filter (\<lambda>x. dedupKey x = dedupKey r) (Deduplicate cmp ks rs) = [w]"
    by blast
  note first = byKeyOf_first_min [OF ord w]
  have pairs: "keysDeterminePairs rs \<longrightarrow>
        filter (\<lambda>x. groupKey x = groupKey r) (Deduplicate cmp ks rs) = [w] \<and>
        List.find (\<lambda>c. \<forall>x\<in>set (filter (\<lambda>x. groupKey x = groupKey r) rs).
                      \<not> lowerThan cmp (NewVer x) (NewVer c))
          (filter (\<lambda>x. groupKey x = groupKey r) rs) = Some w"
  proof
    assume det: "keysDeterminePairs rs"
    have a: "filter (\<lambda>x. groupKey x = groupKey r) (Deduplicate cmp ks rs) = [w]"
      using group_filter [OF det r Deduplicate_subset] f by simp
    have "filter (\<lambda>x. groupKey x = groupKey r) rs = filter (\<lambda>x. dedupKey x = dedupKey r) rs"
      by (rule group_filter [OF det r subset_refl])
    then have b: "List.find (\<lambda>c. \<forall>x\<in>set (filter (\<lambda>x. groupKey x = groupKey r) rs).
                      \<not> lowerThan cmp (NewVer x) (NewVer c))
          (filter (\<lambda>x. groupKey x = groupKey r) rs) = Some w"
      using first by simp
    from a b show "filter (\<lambda>x. groupKey x = groupKey r) (Deduplicate cmp ks rs) = [w] \<and>
        List.find (\<lambda>c. \<forall>x\<in>set (filter (\<lambda>x. groupKey x = groupKey r) rs).
                      \<not> lowerThan cmp (NewVer x) (NewVer c))
          (filter (\<lambda>x. groupKey x = groupKey r) rs) = Some w"
      by (rule conjI)
  qed
  show ?thesis
    by (rule exI [of _ w], intro conjI) (rule f, rule first, rule pairs)
qed

lemma tie_example:
  "List.find (\<lambda>c. \<forall>x\<in>set (filter (\<lambda>x. dedupKey x = dedupKey exFooV1') [exFooV2, exFooV1, exFooV1']).
                   \<not> lowerThan coreCompare (NewVer x) (NewVer c))
     (filter (\<lambda>x. dedupKey x = dedupKey exFooV1') [exFooV2, exFooV1, exFooV1']) = Some exFooV1"
  by (simp add: dedupKey_def lowerThan_def ex_defs core_defs)

theorem Deduplicate_earliest_minimum_witness:
  "Deduplicate coreCompare [''github.com/foo''] [exFooV2, exFooV1, exFooV1'] = [exFooV1] \<and>
   coreCompare (NewVer exFooV1) (NewVer exFooV1') = 0 \<and>
   keysDeterminePairs [exFooV2, exFooV1, exFooV1'] \<and>
   List.find (\<lambda>c. \<forall>x\<in>set (filter (\<lambda>x. dedupKey x = dedupKey exFooV1') [exFooV2, exFooV1, exFooV1']).
                   \<not> lowerThan coreCompare (NewVer x) (NewVer c))
     (filter (\<lambda>x. dedupKey x = dedupKey exFooV1') [exFooV2, exFooV1, exFooV1']) = Some exFooV1 \<and>
   (\<exists>w. filter (\<lambda>x. dedupKey x = dedupKey exFooV1')
          (Deduplicate coreCompare [''github.com/foo''] [exFooV2, exFooV1, exFooV1']) = [w] \<and>
      List.find (\<lambda>c. \<forall>x\<in>set (filter (\<lambda>x. dedupKey x = dedupKey exFooV1') [exFooV2, exFooV1, exFooV1']).
                        \<not> lowerThan coreCompare (NewVer x) (NewVer c))
            (filter (\<lambda>x. dedupKey x = dedupKey exFooV1') [exFooV2, exFooV1, exFooV1']) = Some w \<and>
      (keysDeterminePairs [exFooV2, exFooV1, exFooV1'] \<longrightarrow>
         filter (\<lambda>x. groupKey x = groupKey exFooV1')
           (Deduplicate coreCompare [''github.com/foo''] [exFooV2, exFooV1, exFooV1']) = [w] \<and>
         List.find (\<lambda>c. \<forall>x\<in>set (filter (\<lambda>x. groupKey x = groupKey exFooV1') [exFooV2, exFooV1, exFooV1']).
                        \<not> lowerThan coreCompare (NewVer x) (NewVer c))
            (filter (\<lambda>x. groupKey x = groupKey exFooV1') [exFooV2, exFooV1, exFooV1']) = Some w))"
proof -
  have b: "iterOrder (byKeyOf coreCompare [exFooV2, exFooV1, exFooV1']) [''github.com/foo'']"
    by (simp add: dedup_defs ex_defs core_defs)
  have c: "exFooV1' \<in> set [exFooV2, exFooV1, exFooV1']" by simp
  have d: "Deduplicate coreCompare [''github.com/foo''] [exFooV2, exFooV1, exFooV1'] = [exFooV1]"
    by (simp add: dedup_defs ex_defs core_defs)
  have e: "coreCompare (NewVer exFooV1) (NewVer exFooV1') = 0"
    by (simp add: ex_defs core_defs)
  have g: "keysDeterminePairs [exFooV2, exFooV1, exFooV1']"
    by (simp add: keysDeterminePairs_def dedupKey_def groupKey_def ex_defs)
  show ?thesis
    by (intro conjI)
      (rule d, rule e, rule g, rule tie_example,
       rule Deduplicate_earliest_minimum [OF coreCompare_order b c])
qed


section \<open>Properties of IsLocalPath\<close>

lemma IsLocalPath_empty: "\<not> IsLocalPath isAbs []"
  by (simp add: IsLocalPath_def)

lemma IsLocalPath_unix_iff:
  "IsLocalPath IsAbs_unix t \<longleftrightarrow>
     t = ''.'' \<or> t = ''..'' \<or> HasPrefix t ''./'' \<or> HasPrefix t ''../'' \<or> HasPrefix t ''/'' \<or>
     (2 \<le> length t \<and> t ! 1 = CHR '':'')"
  by (auto simp: IsLocalPath_def IsAbs_unix_def HasPrefix_def)

lemma specLocalPath_imp_IsLocalPath: "specLocalPath t \<Longrightarrow> IsLocalPath IsAbs_unix t"
  by (auto simp: IsLocalPath_unix_iff specLocalPath_def driveLetterPrefix_def split: list.splits)

lemma IsLocalPath_examples:
  "IsLocalPath IsAbs_unix ''./foo''" "IsLocalPath IsAbs_unix ''../foo''"
  "IsLocalPath IsAbs_unix ''.''" "IsLocalPath IsAbs_unix ''..''"
  "IsLocalPath IsAbs_unix ''/absolute/path''"
  "\<not> IsLocalPath IsAbs_unix []"
  "\<not> IsLocalPath IsAbs_unix ''github.com/foo/bar''"
  "\<not> IsLocalPath IsAbs_unix ''golang.org/x/mod''"
  by (simp_all add: IsLocalPath_def IsAbs_unix_def HasPrefix_def)

text \<open>
  C3: IsLocalPath is true exactly for \<^verbatim>\<open>.\<close>, \<^verbatim>\<open>..\<close>, the prefixes \<^verbatim>\<open>./\<close> and \<^verbatim>\<open>../\<close>, a
  leading path separator and a drive-letter prefix \<^verbatim>\<open><letter>:\<close>. The code's last test
  looks at the second byte only: on a Unix host the string \<^verbatim>\<open>1:x\<close>, which has none of
  these forms, is classified as local.
\<close>

theorem IsLocalPath_colon_not_drive_letter:
  "IsLocalPath IsAbs_unix ''1:x'' \<and> \<not> specLocalPath ''1:x''"
  by (simp add: IsLocalPath_def IsAbs_unix_def HasPrefix_def specLocalPath_def
      driveLetterPrefix_def isLetter_def)

section \<open>Properties of the manifest readers\<close>

lemma foldl_nonLocalStep:
  "foldl (nonLocalStep isAbs) acc xs =
     acc @ filter (\<lambda>rep. \<not> IsLocal isAbs rep) (map toReplace xs)"
  by (induction xs arbitrary: acc) (simp_all add: nonLocalStep_def Let_def)

lemma ParseReplaces_eq:
  assumes "ReadFile w path = Inr data" and "Parse P path data = Inr f"
  shows "ParseReplaces P w path =
           Inr (filter (\<lambda>rep. \<not> IsLocal (IsAbs P) rep) (map toReplace (mf_Replace f)))"
  using assms by (simp add: ParseReplaces_def foldl_nonLocalStep)

lemma ParseReplaces_nonlocal:
  assumes "ParseReplaces P w path = Inr rs" and "r \<in> set rs"
  shows "\<not> IsLocalPath (IsAbs P) (New r)"
  using assms
  by (auto simp: ParseReplaces_def foldl_nonLocalStep IsLocal_def split: sum.splits)

lemma ParseReplaces_no_source:
  assumes "ParseReplaces P w path = Inr rs" and "r \<in> set rs"
  shows "Source r = []"
  using assms
  by (auto simp: ParseReplaces_def foldl_nonLocalStep toReplace_def split: sum.splits)

lemma collectStep_nonlocal:
  assumes "\<forall>r\<in>set (fst acc). \<not> IsLocalPath (IsAbs P) (New r)"
  shows "\<forall>r\<in>set (fst (collectStep P opts acc dep)). \<not> IsLocalPath (IsAbs P) (New r)"
proof (cases acc)
  case (Pair allReplaces w)
  with assms show ?thesis
    by (auto simp: collectStep_def Let_def dest: ParseReplaces_nonlocal split: sum.splits)
qed

lemma foldl_collectStep_nonlocal:
  "\<forall>r\<in>set (fst acc). \<not> IsLocalPath (IsAbs P) (New r) \<Longrightarrow>
   \<forall>r\<in>set (fst (foldl (collectStep P opts) acc deps)). \<not> IsLocalPath (IsAbs P) (New r)"
proof (induction deps arbitrary: acc)
  case Nil
  then show ?case by simp
next
  case (Cons d ds)
  from Cons.prems have "\<forall>r\<in>set (fst (collectStep P opts acc d)). \<not> IsLocalPath (IsAbs P) (New r)"
    by (rule collectStep_nonlocal)
  from Cons.IH [OF this] show ?case by simp
qed

lemma collectReplaces_nonlocal:
  "\<forall>r\<in>set (fst (collectReplaces P opts deps w)). \<not> IsLocalPath (IsAbs P) (New r)"
  unfolding collectReplaces_def by (rule foldl_collectStep_nonlocal) simp

lemmas path_defs = IsLocalPath_def IsAbs_unix_def HasPrefix_def IsLocal_def

lemmas ex_file_defs =
  exDepGoMod_def exDepFile_def exMainGoMod_def exMainFile_def exPlainGoMod_def exPlainFile_def
  exOldModule_def exStale_def

lemmas ex_platform_defs =
  exPlatform_def exParse_def exModules_def exDecode_def exExec_def trimBlanks_def goListArgs_def

lemma ParseReplaces_example:
  "ParseReplaces exPlatform exWorld ''/proj/dep/go.mod'' = Inr [exOldModule]"
  by (simp add: ParseReplaces_def ReadFile_def nonLocalStep_def toReplace_def Let_def
      exWorld_def ex_platform_defs ex_file_defs path_defs)

text \<open>
  C4: every record returned by ParseReplaces has a NewTarget that IsLocalPath rejects;
  Deduplicate adds no record, so over lists of such records (in particular over the list
  that Run collects from the dependencies) its result holds no record with a local
  NewTarget.
\<close>

theorem local_replaces_never_propagated:
  "(ParseReplaces P w path = Inr rs \<longrightarrow> (\<forall>r\<in>set rs. \<not> IsLocalPath (IsAbs P) (New r))) \<and>
   ((\<forall>r\<in>set rs'. \<not> IsLocalPath isAbs (New r)) \<longrightarrow>
      (\<forall>x\<in>set (Deduplicate cmp ks rs'). \<not> IsLocalPath isAbs (New x))) \<and>
   (\<forall>x\<in>set (Deduplicate cmp ks (fst (collectReplaces P opts deps w))).
      \<not> IsLocalPath (IsAbs P) (New x))"
proof (intro conjI impI)
  assume "ParseReplaces P w path = Inr rs"
  then show "\<forall>r\<in>set rs. \<not> IsLocalPath (IsAbs P) (New r)"
    using ParseReplaces_nonlocal by blast
next
  assume "\<forall>r\<in>set rs'. \<not> IsLocalPath isAbs (New r)"
  then show "\<forall>x\<in>set (Deduplicate cmp ks rs'). \<not> IsLocalPath isAbs (New x)"
    using Deduplicate_subset [of cmp ks rs'] by blast
next
  show "\<forall>x\<in>set (Deduplicate cmp ks (fst (collectReplaces P opts deps w))).
      \<not> IsLocalPath (IsAbs P) (New x)"
    using collectReplaces_nonlocal [of P opts deps w]
      Deduplicate_subset [of cmp ks "fst (collectReplaces P opts deps w)"] by blast
qed

theorem local_replaces_never_propagated_witness:
  "ParseReplaces exPlatform exWorld ''/proj/dep/go.mod'' = Inr [exOldModule] \<and>
   \<not> IsLocalPath (IsAbs exPlatform) (New exOldModule) \<and>
   Deduplicate coreCompare [''github.com/old/module''] [exOldModule] = [exOldModule] \<and>
   list_all (\<lambda>x. \<not> IsLocalPath (IsAbs exPlatform) (New x))
     (Deduplicate coreCompare [''github.com/old/module''] [exOldModule])"
proof -
  note inst = local_replaces_never_propagated
    [where P = exPlatform and w = exWorld and path = "''/proj/dep/go.mod''"
       and rs = "[exOldModule]" and rs' = "[exOldModule]" and isAbs = "IsAbs exPlatform"
       and cmp = coreCompare and ks = "[''github.com/old/module'']"]
  have a: "ParseReplaces exPlatform exWorld ''/proj/dep/go.mod'' = Inr [exOldModule]"
    by (rule ParseReplaces_example)
  have b: "Deduplicate coreCompare [''github.com/old/module''] [exOldModule] = [exOldModule]"
    by (simp add: dedup_defs ex_file_defs)
  from inst a have c: "\<not> IsLocalPath (IsAbs exPlatform) (New exOldModule)" by simp
  then have "\<forall>r\<in>set [exOldModule]. \<not> IsLocalPath (IsAbs exPlatform) (New r)" by simp
  with inst
  have "\<forall>x\<in>set (Deduplicate coreCompare [''github.com/old/module''] [exOldModule]).
          \<not> IsLocalPath (IsAbs exPlatform) (New x)"
    by blast
  then have d: "list_all (\<lambda>x. \<not> IsLocalPath (IsAbs exPlatform) (New x))
     (Deduplicate coreCompare [''github.com/old/module''] [exOldModule])"
    by (simp only: list_all_iff)
  from a b c d show ?thesis by (simp only: simp_thms)
qed

section \<open>Properties of findStaleReplaces\<close>

lemma foldl_annotatedStep:
  "foldl (annotatedStep P) acc xs =
     acc @ filter (\<lambda>rep. Source rep \<noteq> []) (map (withSource P) xs)"
  by (induction xs arbitrary: acc) (simp_all add: annotatedStep_def Let_def)

lemma ParseReplacesWithSource_eq:
  assumes "ReadFile w path = Inr data" and "Parse P path data = Inr f"
  shows "ParseReplacesWithSource P w path =
           Inr (filter (\<lambda>rep. Source rep \<noteq> []) (map (withSource P) (mf_Replace f)))"
  using assms by (simp add: ParseReplacesWithSource_def foldl_annotatedStep)

lemma lookupBool_currentKeys:
  "lookupBool (foldl (\<lambda>m r. m(Old r \<mapsto> True)) m0 current) k \<longleftrightarrow>
     lookupBool m0 k \<or> k \<in> Old ` set current"
  by (induction current arbitrary: m0) (auto simp: lookupBool_def)

lemma lookupBool_empty: "\<not> lookupBool Map.empty k"
  by (simp add: lookupBool_def)

lemma foldl_stale:
  "foldl (\<lambda>acc r. if \<not> Q r then acc @ [r] else acc) acc xs = acc @ filter (\<lambda>r. \<not> Q r) xs"
  by (induction xs arbitrary: acc) simp_all

lemma findStaleReplaces_eq:
  assumes "ParseReplacesWithSource P w (Join P dir ''go.mod'') = Inr existing"
  shows "findStaleReplaces P w dir current =
           Inr (filter (\<lambda>r. Old r \<notin> Old ` set current) existing)"
  using assms
  by (simp add: findStaleReplaces_def Let_def foldl_stale lookupBool_currentKeys lookupBool_empty)

lemma findStaleReplaces_error:
  assumes "ParseReplacesWithSource P w (Join P dir ''go.mod'') = Inl err"
  shows "findStaleReplaces P w dir current = Inl err"
  using assms by (simp add: findStaleReplaces_def Let_def)

text \<open>
  C5: when the manifest of the working directory is read and parsed, FindStale returns
  exactly the annotated overrides (the directives whose recovered Source is not empty),
  in manifest order, whose OldTarget is the OldTarget of no record of the reconciled
  list; it returns the empty list when the target of every annotated override occurs in
  the reconciled list.
\<close>

theorem findStaleReplaces_exact:
  assumes rd: "ReadFile w (Join P dir ''go.mod'') = Inr data"
    and ps: "Parse P (Join P dir ''go.mod'') data = Inr f"
  shows "findStaleReplaces P w dir current =
           Inr (filter (\<lambda>r. Old r \<notin> Old ` set current)
                  (filter (\<lambda>r. Source r \<noteq> []) (map (withSource P) (mf_Replace f)))) \<and>
         ((\<forall>r\<in>set (filter (\<lambda>r. Source r \<noteq> []) (map (withSource P) (mf_Replace f))).
              Old r \<in> Old ` set current) \<longrightarrow>
          findStaleReplaces P w dir current = Inr [])"
proof -
  let ?ann = "filter (\<lambda>r. Source r \<noteq> []) (map (withSource P) (mf_Replace f))"
  have eq: "findStaleReplaces P w dir current = Inr (filter (\<lambda>r. Old r \<notin> Old ` set current) ?ann)"
    by (rule findStaleReplaces_eq [OF ParseReplacesWithSource_eq [OF rd ps]])
  moreover have "filter (\<lambda>r. Old r \<notin> Old ` set current) ?ann = []"
    if "\<forall>r\<in>set ?ann. Old r \<in> Old ` set current"
    using that by (auto simp: filter_empty_conv)
  ultimately show ?thesis by simp
qed

lemmas source_defs =
  withSource_def sourceStep_def indexOf_def indexOfFrom.simps toReplace_def Let_def

lemma withSource_example:
  "filter (\<lambda>r. Source r \<noteq> []) (map (withSource exPlatform) (mf_Replace exMainFile)) = [exStale]"
  by (simp add: source_defs ex_platform_defs ex_file_defs)

theorem findStaleReplaces_exact_witness:
  "findStaleReplaces exPlatform exWorld ''/proj'' [exOldModule] = Inr [exStale] \<and>
   findStaleReplaces exPlatform exWorld ''/proj'' [exStale] = Inr []"
proof -
  have rd: "ReadFile exWorld (Join exPlatform ''/proj'' ''go.mod'') = Inr exMainGoMod"
    by (simp add: ReadFile_def exWorld_def exPlatform_def)
  have ps: "Parse exPlatform (Join exPlatform ''/proj'' ''go.mod'') exMainGoMod = Inr exMainFile"
    by (simp add: exPlatform_def exParse_def exDepGoMod_def exMainGoMod_def)
  have a: "filter (\<lambda>r. Old r \<notin> Old ` set [exOldModule]) [exStale] = [exStale]"
    by (simp add: ex_file_defs)
  have b: "filter (\<lambda>r. Old r \<notin> Old ` set [exStale]) [exStale] = []"
    by simp
  from findStaleReplaces_exact [OF rd ps, of "[exOldModule]"]
    findStaleReplaces_exact [OF rd ps, of "[exStale]"] a b
  show ?thesis by (simp add: withSource_example)
qed



section \<open>Properties of addSourceComment\<close>

text \<open>\<open>substring s sub j\<close>: the text \<open>sub\<close> stands in \<open>s\<close> at index \<open>j\<close>.\<close>

lemma indexOfFrom_none:
  "indexOfFrom i s sub < 0 \<longleftrightarrow>
     (\<forall>j\<ge>i. \<not> (j + length sub \<le> length s \<and> take (length sub) (drop j s) = sub))"
proof (induction i s sub rule: indexOfFrom.induct)
  case (1 i s sub)
  show ?case
  proof (cases "int i \<le> int (length s) - int (length sub)")
    case False
    then have "\<forall>j\<ge>i. \<not> j + length sub \<le> length s" by auto
    with False show ?thesis by (subst indexOfFrom.simps) auto
  next
    case inr: True
    show ?thesis
    proof (cases "take (length sub) (drop i s) = sub")
      case True
      with inr have "indexOfFrom i s sub = int i" by (subst indexOfFrom.simps) simp
      moreover from inr have "i + length sub \<le> length s" by linarith
      ultimately show ?thesis using True by auto
    next
      case False
      with inr have eq: "indexOfFrom i s sub = indexOfFrom (Suc i) s sub"
        by (subst indexOfFrom.simps) simp
      have "(\<forall>j\<ge>i. \<not> (j + length sub \<le> length s \<and> take (length sub) (drop j s) = sub)) \<longleftrightarrow>
            (\<forall>j\<ge>Suc i. \<not> (j + length sub \<le> length s \<and> take (length sub) (drop j s) = sub))"
        (is "?L \<longleftrightarrow> ?R")
      proof
        assume ?L
        then show ?R by (simp add: Suc_leD)
      next
        assume r: ?R
        show ?L
        proof (intro allI impI)
          fix j assume "i \<le> j"
          then consider "j = i" | "Suc i \<le> j" by linarith
          then show "\<not> (j + length sub \<le> length s \<and> take (length sub) (drop j s) = sub)"
          proof cases
            case 1
            with False show ?thesis by simp
          next
            case 2
            with r show ?thesis by blast
          qed
        qed
      qed
      with eq "1.IH" [OF inr False] show ?thesis by simp
    qed
  qed
qed

lemma indexOfFrom_first:
  assumes "0 \<le> indexOfFrom i s sub"
  shows "i \<le> nat (indexOfFrom i s sub) \<and>
         nat (indexOfFrom i s sub) + length sub \<le> length s \<and>
         take (length sub) (drop (nat (indexOfFrom i s sub)) s) = sub \<and>
         (\<forall>k. i \<le> k \<and> k < nat (indexOfFrom i s sub) \<longrightarrow> take (length sub) (drop k s) \<noteq> sub)"
  using assms
proof (induction i s sub rule: indexOfFrom.induct)
  case (1 i s sub)
  show ?case
  proof (cases "int i \<le> int (length s) - int (length sub)")
    case False
    then have "indexOfFrom i s sub = - 1" by (subst indexOfFrom.simps) simp
    with "1.prems" show ?thesis by simp
  next
    case inr: True
    show ?thesis
    proof (cases "take (length sub) (drop i s) = sub")
      case True
      with inr have "indexOfFrom i s sub = int i" by (subst indexOfFrom.simps) simp
      moreover from inr have "i + length sub \<le> length s" by linarith
      ultimately show ?thesis using True by auto
    next
      case False
      with inr have eq: "indexOfFrom i s sub = indexOfFrom (Suc i) s sub"
        by (subst indexOfFrom.simps) simp
      with "1.prems" have "0 \<le> indexOfFrom (Suc i) s sub" by simp
      from "1.IH" [OF inr False this] eq
      have a: "Suc i \<le> nat (indexOfFrom i s sub)"
        and b: "nat (indexOfFrom i s sub) + length sub \<le> length s"
        and c: "take (length sub) (drop (nat (indexOfFrom i s sub)) s) = sub"
        and d: "\<forall>k. Suc i \<le> k \<and> k < nat (indexOfFrom i s sub) \<longrightarrow>
                  take (length sub) (drop k s) \<noteq> sub"
        by simp_all
      have "\<forall>k. i \<le> k \<and> k < nat (indexOfFrom i s sub) \<longrightarrow> take (length sub) (drop k s) \<noteq> sub"
      proof (intro allI impI)
        fix k assume k: "i \<le> k \<and> k < nat (indexOfFrom i s sub)"
        then consider "k = i" | "Suc i \<le> k" by linarith
        then show "take (length sub) (drop k s) \<noteq> sub"
        proof cases
          case 1
          with False show ?thesis by simp
        next
          case 2
          with d k show ?thesis by blast
        qed
      qed
      moreover from a have "i \<le> nat (indexOfFrom i s sub)" by simp
      ultimately show ?thesis using b c by blast
    qed
  qed
qed

lemma Contains_iff:
  "Contains s sub \<longleftrightarrow> (\<exists>j. j + length sub \<le> length s \<and> take (length sub) (drop j s) = sub)"
proof -
  have "Contains s sub \<longleftrightarrow> \<not> indexOfFrom 0 s sub < 0"
    by (auto simp: Contains_def Index_def)
  then show ?thesis by (simp add: indexOfFrom_none)
qed

lemma Contains_middle: "Contains (pre @ sub @ post) sub"
  unfolding Contains_iff by (rule exI [of _ "length pre"]) simp

lemma ReplaceFirst_first:
  assumes c: "Contains s old" and ne: "old \<noteq> new"
  shows "\<exists>pre post. s = pre @ old @ post \<and> ReplaceFirst s old new = pre @ new @ post \<and>
           (\<forall>k<length pre. take (length old) (drop k s) \<noteq> old)"
proof -
  let ?j = "nat (Index s old)"
  from c have nonneg: "0 \<le> indexOfFrom 0 s old" by (simp add: Contains_def Index_def)
  from indexOfFrom_first [OF nonneg]
  have len: "?j + length old \<le> length s"
    and at: "take (length old) (drop ?j s) = old"
    and first: "\<forall>k<?j. take (length old) (drop k s) \<noteq> old"
    by (simp_all add: Index_def)
  have split: "s = take ?j s @ old @ drop (?j + length old) s"
  proof -
    have "take (length old) (drop ?j s) @ drop (length old) (drop ?j s) = drop ?j s"
      by (rule append_take_drop_id)
    then have "old @ drop (?j + length old) s = drop ?j s"
      using at by (simp add: add.commute)
    moreover have "take ?j s @ drop ?j s = s" by (rule append_take_drop_id)
    ultimately show ?thesis by simp
  qed
  have rep: "ReplaceFirst s old new = take ?j s @ new @ drop (?j + length old) s"
    using ne nonneg by (simp add: ReplaceFirst_def Let_def Index_def)
  from len have lj: "length (take ?j s) = ?j" by simp
  have "s = take ?j s @ old @ drop (?j + length old) s \<and>
        ReplaceFirst s old new = take ?j s @ new @ drop (?j + length old) s \<and>
        (\<forall>k<length (take ?j s). take (length old) (drop k s) \<noteq> old)"
    using split rep first lj by (simp only: simp_thms)
  then show ?thesis by blast
qed

lemma addSourceComment_unreadable:
  "ReadFile w (Join P dir ''go.mod'') = Inl err \<Longrightarrow> addSourceComment P w dir r = (Some err, w)"
  by (simp add: addSourceComment_def Let_def)

lemma addSourceComment_annotated:
  assumes "ReadFile w (Join P dir ''go.mod'') = Inr content"
    and "Contains content (commentPattern r @ sourceComment r)"
  shows "addSourceComment P w dir r = (None, w)"
  using assms by (simp add: addSourceComment_def Let_def)

lemma addSourceComment_absent:
  assumes "ReadFile w (Join P dir ''go.mod'') = Inr content"
    and "\<not> Contains content (commentPattern r)"
  shows "addSourceComment P w dir r = (None, w)"
  using assms by (simp add: addSourceComment_def Let_def)

lemma addSourceComment_rewrite:
  assumes rd: "ReadFile w (Join P dir ''go.mod'') = Inr content"
    and c: "Contains content (commentPattern r)"
    and nc: "\<not> Contains content (commentPattern r @ sourceComment r)"
  shows "\<exists>pre post. content = pre @ commentPattern r @ post \<and>
           (\<forall>k<length pre. take (length (commentPattern r)) (drop k content) \<noteq> commentPattern r) \<and>
           addSourceComment P w dir r =
             WriteFile w (Join P dir ''go.mod'') (pre @ commentPattern r @ sourceComment r @ post)"
proof -
  have ne: "commentPattern r \<noteq> commentPattern r @ sourceComment r"
    by (simp add: sourceComment_def)
  from ReplaceFirst_first [OF c ne] obtain pre post where
    "content = pre @ commentPattern r @ post"
    "ReplaceFirst content (commentPattern r) (commentPattern r @ sourceComment r) =
       pre @ (commentPattern r @ sourceComment r) @ post"
    "\<forall>k<length pre. take (length (commentPattern r)) (drop k content) \<noteq> commentPattern r"
    by blast
  moreover have "addSourceComment P w dir r =
      WriteFile w (Join P dir ''go.mod'')
        (ReplaceFirst content (commentPattern r) (commentPattern r @ sourceComment r))"
    using rd c nc by (simp add: addSourceComment_def Let_def)
  ultimately have "content = pre @ commentPattern r @ post \<and>
      (\<forall>k<length pre. take (length (commentPattern r)) (drop k content) \<noteq> commentPattern r) \<and>
      addSourceComment P w dir r =
        WriteFile w (Join P dir ''go.mod'') (pre @ commentPattern r @ sourceComment r @ post)"
    by (simp only: append_assoc simp_thms)
  then show ?thesis by blast
qed

lemma ReadFile_after_WriteFile:
  "WriteFile w path data = (None, w') \<Longrightarrow> ReadFile w' path = Inr data"
  by (auto simp: WriteFile_def ReadFile_def split: if_splits)

lemma addSourceComment_twice:
  assumes "addSourceComment P w dir r = (None, w')"
  shows "addSourceComment P w' dir r = (None, w')"
proof (cases "ReadFile w (Join P dir ''go.mod'')")
  case (Inl err)
  with assms show ?thesis by (simp add: addSourceComment_unreadable)
next
  case (Inr content)
  show ?thesis
  proof (cases "Contains content (commentPattern r) \<and>
                \<not> Contains content (commentPattern r @ sourceComment r)")
    case False
    with Inr assms have "w' = w" by (auto simp: addSourceComment_def Let_def)
    with assms show ?thesis by simp
  next
    case True
    from addSourceComment_rewrite [OF Inr] True obtain pre post where
      wr: "addSourceComment P w dir r =
             WriteFile w (Join P dir ''go.mod'') (pre @ commentPattern r @ sourceComment r @ post)"
      by blast
    with assms have "ReadFile w' (Join P dir ''go.mod'') =
        Inr (pre @ commentPattern r @ sourceComment r @ post)"
      by (simp add: ReadFile_after_WriteFile)
    moreover have "Contains (pre @ commentPattern r @ sourceComment r @ post)
        (commentPattern r @ sourceComment r)"
      using Contains_middle [of pre "commentPattern r @ sourceComment r" post] by simp
    ultimately show ?thesis by (rule addSourceComment_annotated)
  qed
qed

text \<open>
  C10: when the manifest already contains the directive followed by its provenance
  comment, addSourceComment returns success and leaves everything as it is; after a
  successful call a second call for the same record changes nothing; and when the
  directive stands in the manifest without the comment anywhere, what is written is the
  manifest with the comment inserted after the first occurrence of the directive only.
\<close>

theorem addSourceComment_idempotent:
  "(ReadFile w (Join P dir ''go.mod'') = Inr content \<longrightarrow>
      Contains content (commentPattern r @ sourceComment r) \<longrightarrow>
      addSourceComment P w dir r = (None, w)) \<and>
   (addSourceComment P w dir r = (None, w') \<longrightarrow> addSourceComment P w' dir r = (None, w')) \<and>
   (ReadFile w (Join P dir ''go.mod'') = Inr content \<longrightarrow>
      Contains content (commentPattern r) \<longrightarrow>
      \<not> Contains content (commentPattern r @ sourceComment r) \<longrightarrow>
      (\<exists>pre post. content = pre @ commentPattern r @ post \<and>
         (\<forall>k<length pre. take (length (commentPattern r)) (drop k content) \<noteq> commentPattern r) \<and>
         addSourceComment P w dir r =
           WriteFile w (Join P dir ''go.mod'') (pre @ commentPattern r @ sourceComment r @ post)))"
proof (intro conjI impI)
  assume "ReadFile w (Join P dir ''go.mod'') = Inr content"
    and "Contains content (commentPattern r @ sourceComment r)"
  then show "addSourceComment P w dir r = (None, w)"
    by (rule addSourceComment_annotated)
next
  assume "addSourceComment P w dir r = (None, w')"
  then show "addSourceComment P w' dir r = (None, w')"
    by (rule addSourceComment_twice)
next
  assume "ReadFile w (Join P dir ''go.mod'') = Inr content"
    and "Contains content (commentPattern r)"
    and "\<not> Contains content (commentPattern r @ sourceComment r)"
  then show "\<exists>pre post. content = pre @ commentPattern r @ post \<and>
         (\<forall>k<length pre. take (length (commentPattern r)) (drop k content) \<noteq> commentPattern r) \<and>
         addSourceComment P w dir r =
           WriteFile w (Join P dir ''go.mod'') (pre @ commentPattern r @ sourceComment r @ post)"
    by (rule addSourceComment_rewrite)
qed


lemmas comment_defs =
  addSourceComment_def commentPattern_def sourceComment_def Contains_def Index_def
  ReplaceFirst_def ReadFile_def WriteFile_def indexOfFrom.simps Let_def

lemma addSourceComment_example:
  "addSourceComment exPlatform exAppliedWorld ''/proj'' exFromDep = (None, exAnnotatedWorld)"
  by (simp add: comment_defs exPlatform_def exAppliedWorld_def exAnnotatedWorld_def
      exFromDep_def exPlainGoMod_def)

lemma Contains_examples:
  "Contains (exPlainGoMod @ ''replace github.com/old/module => github.com/new/module v1.0.0\<newline>'')
     (commentPattern exFromDep)"
  "\<not> Contains (exPlainGoMod @ ''replace github.com/old/module => github.com/new/module v1.0.0\<newline>'')
     (commentPattern exFromDep @ sourceComment exFromDep)"
  "Contains (exPlainGoMod @
      ''replace github.com/old/module => github.com/new/module v1.0.0 // from: example.com/dep\<newline>'')
     (commentPattern exFromDep @ sourceComment exFromDep)"
  by (simp_all add: comment_defs exFromDep_def exPlainGoMod_def)

theorem addSourceComment_idempotent_witness:
  "addSourceComment exPlatform exAnnotatedWorld ''/proj'' exFromDep = (None, exAnnotatedWorld) \<and>
   addSourceComment exPlatform exAppliedWorld ''/proj'' exFromDep = (None, exAnnotatedWorld) \<and>
   (\<exists>pre post.
      exPlainGoMod @ ''replace github.com/old/module => github.com/new/module v1.0.0\<newline>'' =
        pre @ commentPattern exFromDep @ post \<and>
      (\<forall>k<length pre.
         take (length (commentPattern exFromDep))
           (drop k (exPlainGoMod @
              ''replace github.com/old/module => github.com/new/module v1.0.0\<newline>'')) \<noteq>
         commentPattern exFromDep) \<and>
      addSourceComment exPlatform exAppliedWorld ''/proj'' exFromDep =
        WriteFile exAppliedWorld (Join exPlatform ''/proj'' ''go.mod'')
          (pre @ commentPattern exFromDep @ sourceComment exFromDep @ post))"
proof -
  let ?c0 = "exPlainGoMod @ ''replace github.com/old/module => github.com/new/module v1.0.0\<newline>''"
  let ?c1 = "exPlainGoMod @
    ''replace github.com/old/module => github.com/new/module v1.0.0 // from: example.com/dep\<newline>''"
  have rd0: "ReadFile exAppliedWorld (Join exPlatform ''/proj'' ''go.mod'') = Inr ?c0"
    by (simp add: ReadFile_def exAppliedWorld_def exPlatform_def)
  have rd1: "ReadFile exAnnotatedWorld (Join exPlatform ''/proj'' ''go.mod'') = Inr ?c1"
    by (simp add: ReadFile_def exAnnotatedWorld_def exPlatform_def)
  note annotated = addSourceComment_idempotent
    [where P = exPlatform and w = exAnnotatedWorld and dir = "''/proj''" and r = exFromDep
       and content = ?c1 and w' = exAnnotatedWorld]
  note applied = addSourceComment_idempotent
    [where P = exPlatform and w = exAppliedWorld and dir = "''/proj''" and r = exFromDep
       and content = ?c0 and w' = exAnnotatedWorld]
  from annotated rd1 Contains_examples(3)
  have a: "addSourceComment exPlatform exAnnotatedWorld ''/proj'' exFromDep = (None, exAnnotatedWorld)"
    by blast
  from applied addSourceComment_example
  have b: "addSourceComment exPlatform exAnnotatedWorld ''/proj'' exFromDep = (None, exAnnotatedWorld)"
    by blast
  from applied rd0 Contains_examples(1,2)
  have c: "\<exists>pre post. ?c0 = pre @ commentPattern exFromDep @ post \<and>
      (\<forall>k<length pre. take (length (commentPattern exFromDep)) (drop k ?c0) \<noteq>
         commentPattern exFromDep) \<and>
      addSourceComment exPlatform exAppliedWorld ''/proj'' exFromDep =
        WriteFile exAppliedWorld (Join exPlatform ''/proj'' ''go.mod'')
          (pre @ commentPattern exFromDep @ sourceComment exFromDep @ post)"
    by blast
  from a addSourceComment_example c show ?thesis by (simp only: simp_thms)
qed


section \<open>Properties of Run\<close>

subsection \<open>What the steps before the apply phase leave in place\<close>

lemma files_log: "files (log line w) = files w"
  by (simp add: log_def)

lemma files_verbose: "files (verbose opts line w) = files w"
  by (simp add: verbose_def files_log)

lemma files_foldl_log: "files (foldl (\<lambda>v r. log (f r) v) w rs) = files w"
  by (induction rs arbitrary: w) (simp_all add: files_log)

lemma files_dryRunReport: "files (dryRunReport replaces stale w) = files w"
  by (simp add: dryRunReport_def Let_def files_foldl_log files_log)

lemma files_collectStep: "files (snd (collectStep P opts acc dep)) = files (snd acc)"
  by (cases acc) (simp add: collectStep_def Let_def files_verbose split: sum.splits)

lemma files_foldl_collectStep:
  "files (snd (foldl (collectStep P opts) acc deps)) = files (snd acc)"
  by (induction deps arbitrary: acc) (simp_all add: files_collectStep)

lemma files_collectReplaces: "files (snd (collectReplaces P opts deps w)) = files w"
  by (simp add: collectReplaces_def files_foldl_collectStep)

lemma files_detectStale: "files (snd (detectStale P opts dir replaces w)) = files w"
  by (simp add: detectStale_def files_verbose split: sum.splits)

lemma files_listDirectDeps:
  assumes "\<forall>v d. files (snd (Exec P v d goListArgs)) p = files v p"
  shows "files (snd (listDirectDeps P w dir)) p = files w p"
proof -
  from assms have "files (snd (Exec P w dir goListArgs)) p = files w p" by blast
  then show ?thesis
    by (auto simp: listDirectDeps_def split: prod.splits option.splits sum.splits)
qed

lemma files_syncChanges_dry:
  "DryRun opts \<Longrightarrow> files (snd (syncChanges P opts dir replaces stale w)) = files w"
  by (simp add: syncChanges_def files_log files_dryRunReport)

text \<open>
  C6: with the dry-run option, and \<^verbatim>\<open>go list\<close> leaving the file at path \<open>p\<close> as it is,
  a run leaves the file at \<open>p\<close> (in particular the project's manifest) as it is:
  present or absent as before, with the same bytes. This holds on every path through
  Run that a dry run can take, the dry-run branch among them.
\<close>

theorem Run_dry_run_keeps_files:
  assumes dry: "DryRun opts"
    and golist: "\<forall>v d. files (snd (Exec P v d goListArgs)) p = files v p"
  shows "files (snd (Run P opts ks w)) p = files w p"
proof (cases "resolveDir P opts w")
  case (Inl err)
  then show ?thesis by (simp add: Run_def)
next
  case (Inr dir)
  obtain res w1 where l: "listDirectDeps P w dir = (res, w1)" by (cases "listDirectDeps P w dir")
  from files_listDirectDeps [OF golist, of w dir] l have w1: "files w1 p = files w p" by simp
  show ?thesis
  proof (cases res)
    case (Inl err)
    with Inr l w1 show ?thesis by (simp add: Run_def)
  next
    case deps: (Inr deps)
    let ?w2 = "verbose opts (''Found '' @ showNat (length deps) @ '' direct dependencies'') w1"
    obtain allReplaces w3 where c: "collectReplaces P opts deps ?w2 = (allReplaces, w3)"
      by (cases "collectReplaces P opts deps ?w2")
    from files_collectReplaces [of P opts deps ?w2] c have w3: "files w3 = files w1"
      by (simp add: files_verbose)
    let ?replaces = "Deduplicate (Compare P) ks allReplaces"
    obtain stale w4 where d: "detectStale P opts dir ?replaces w3 = (stale, w4)"
      by (cases "detectStale P opts dir ?replaces w3")
    from files_detectStale [of P opts dir ?replaces w3] d have w4: "files w4 = files w3" by simp
    have "Run P opts ks w = syncChanges P opts dir ?replaces stale w4"
      using Inr l deps c d by (simp add: Run_def Let_def)
    with files_syncChanges_dry [OF dry, of P dir ?replaces stale w4] w4 w3 w1
    show ?thesis by simp
  qed
qed

subsection \<open>A failing staleness step\<close>

lemma runCmd_ok:
  assumes "\<forall>v d a. fst (fst (Exec P v d a)) = None"
  shows "fst (runCmd P w dir argv) = None"
proof -
  from assms have "fst (fst (Exec P w dir argv)) = None" by blast
  then show ?thesis by (auto simp: runCmd_def split: prod.splits)
qed

lemma applyReplaces_ok:
  assumes ok: "\<forall>v d a. fst (fst (Exec P v d a)) = None"
  shows "fst (applyReplaces P opts dir rs w) = None"
proof (induction rs arbitrary: w)
  case Nil
  show ?case by simp
next
  case (Cons r rs)
  let ?argv = "[''go'', ''mod'', ''edit'', ''-replace='' @ (Old r @ ''='' @ New r @ ''@'' @ NewVer r)]"
  obtain e w1 where rc: "runCmd P w dir ?argv = (e, w1)" by (cases "runCmd P w dir ?argv")
  with runCmd_ok [OF ok, of w dir ?argv] have e: "e = None" by simp
  obtain e2 w2 where a: "addSourceComment P w1 dir r = (e2, w2)"
    by (cases "addSourceComment P w1 dir r")
  from rc e a Cons.IH show ?case by (simp add: Let_def)
qed

lemma removeStale_ok:
  assumes ok: "\<forall>v d a. fst (fst (Exec P v d a)) = None"
  shows "fst (removeStale P dir rs w) = None"
proof (induction rs arbitrary: w)
  case Nil
  show ?case by simp
next
  case (Cons r rs)
  let ?argv = "[''go'', ''mod'', ''edit'', ''-dropreplace='' @
                  (if OldVer r \<noteq> [] then Old r @ ''@'' @ OldVer r else Old r)]"
  obtain e w1 where rc: "runCmd P w dir ?argv = (e, w1)" by (cases "runCmd P w dir ?argv")
  with runCmd_ok [OF ok, of w dir ?argv] have e: "e = None" by simp
  from rc e Cons.IH show ?case by (simp add: Let_def)
qed

lemma syncChanges_ok:
  assumes ok: "\<forall>v d a. fst (fst (Exec P v d a)) = None"
  shows "fst (syncChanges P opts dir replaces stale w) = None"
proof -
  obtain e1 w1 where a: "applyReplaces P opts dir replaces w = (e1, w1)"
    by (cases "applyReplaces P opts dir replaces w")
  with applyReplaces_ok [OF ok, of opts dir replaces w] have e1: "e1 = None" by simp
  obtain e2 w2 where r: "removeStale P dir stale w1 = (e2, w2)"
    by (cases "removeStale P dir stale w1")
  with removeStale_ok [OF ok, of dir stale w1] have e2: "e2 = None" by simp
  let ?w3 = "verbose opts ''Running go mod tidy...'' w2"
  obtain e3 w4 where t: "runCmd P ?w3 dir [''go'', ''mod'', ''tidy''] = (e3, w4)"
    by (cases "runCmd P ?w3 dir [''go'', ''mod'', ''tidy'']")
  with runCmd_ok [OF ok, of ?w3 dir "[''go'', ''mod'', ''tidy'']"] have e3: "e3 = None" by simp
  from a e1 r e2 t e3 show ?thesis by (simp add: syncChanges_def)
qed

text \<open>
  C7: when the staleness step fails, Run does not return its error: it goes on exactly
  as with an empty stale list (after the warning, written when verbose), through the
  nothing-to-do test, the dry-run branch or the apply phase; and when every external
  command succeeds, the run succeeds.
\<close>

theorem Run_stale_failure_not_fatal:
  assumes dir: "resolveDir P opts w = Inr dir"
    and deps: "listDirectDeps P w dir = (Inr deps, w1)"
    and coll: "collectReplaces P opts deps
                 (verbose opts (''Found '' @ showNat (length deps) @ '' direct dependencies'') w1) =
               (allReplaces, w3)"
    and fail: "findStaleReplaces P w3 dir (Deduplicate (Compare P) ks allReplaces) = Inl err"
  shows "Run P opts ks w =
           syncChanges P opts dir (Deduplicate (Compare P) ks allReplaces) []
             (verbose opts (''warning: could not check for stale replaces: '' @ errMsg err) w3) \<and>
         ((\<forall>v d a. fst (fst (Exec P v d a)) = None) \<longrightarrow> fst (Run P opts ks w) = None)"
proof -
  have run: "Run P opts ks w =
           syncChanges P opts dir (Deduplicate (Compare P) ks allReplaces) []
             (verbose opts (''warning: could not check for stale replaces: '' @ errMsg err) w3)"
    using dir deps coll fail by (simp add: Run_def Let_def detectStale_def)
  moreover have "fst (Run P opts ks w) = None" if "\<forall>v d a. fst (fst (Exec P v d a)) = None"
    using run syncChanges_ok [OF that] by simp
  ultimately show ?thesis by blast
qed



lemmas run_defs =
  Run_def resolveDir_def listDirectDeps_def collectReplaces_def collectStep_def detectStale_def
  findStaleReplaces_def ParseReplacesWithSource_def ParseReplaces_def nonLocalStep_def
  annotatedStep_def syncChanges_def dryRunReport_def runCmd_def log_def verbose_def
  showNat.simps digitChar_def lookupBool_def

subsection \<open>Evaluation of the examples\<close>

lemma Run_dry_example:
  "Run exPlatform exDryRun [''github.com/old/module''] exWorld =
     (None, exWorld\<lparr>outputLines :=
        [''Would apply 1 replace directives:'',
         ''  github.com/old/module => github.com/new/module v1.0.0 // from: example.com/dep'',
         ''Would remove 1 stale replace directives:'',
         ''  github.com/stale/module (was from: example.com/dep)'']\<rparr>)"
  by (simp add: run_defs source_defs comment_defs dedup_defs path_defs core_defs
      ex_platform_defs ex_file_defs exWorld_def exDryRun_def)


lemma Run_apply_example:
  "fst (Run exPlatform exApply [''github.com/old/module''] exPlainWorld) = None \<and>
   files (snd (Run exPlatform exApply [''github.com/old/module''] exPlainWorld)) ''/proj/go.mod'' =
     Some (''replace example.com/dep => ./dep\<newline>'' @
           ''replace github.com/old/module => github.com/new/module v1.0.0 // from: example.com/dep\<newline>'') \<and>
   outputLines (snd (Run exPlatform exApply [''github.com/old/module''] exPlainWorld)) =
     [''Found 1 direct dependencies'',
      ''Processing example.com/dep@v0.0.0'',
      ''Applied: github.com/old/module => github.com/new/module v1.0.0 // from: example.com/dep'',
      ''Running go mod tidy...'']"
  by (simp add: run_defs source_defs comment_defs dedup_defs path_defs core_defs
      ex_platform_defs ex_file_defs exPlainWorld_def exApply_def)

theorem Run_dry_run_keeps_files_witness:
  "fst (Run exPlatform exDryRun [''github.com/old/module''] exWorld) = None \<and>
   files (snd (Run exPlatform exDryRun [''github.com/old/module''] exWorld)) ''/proj/go.mod'' =
     Some exMainGoMod \<and>
   outputLines (snd (Run exPlatform exDryRun [''github.com/old/module''] exWorld)) =
     [''Would apply 1 replace directives:'',
      ''  github.com/old/module => github.com/new/module v1.0.0 // from: example.com/dep'',
      ''Would remove 1 stale replace directives:'',
      ''  github.com/stale/module (was from: example.com/dep)'']"
proof -
  have a: "DryRun exDryRun" by (simp add: exDryRun_def)
  have b: "\<forall>v d. files (snd (Exec exPlatform v d goListArgs)) ''/proj/go.mod'' =
                 files v ''/proj/go.mod''"
    by (simp add: exPlatform_def exExec_def)
  have "files (snd (Run exPlatform exDryRun [''github.com/old/module''] exWorld)) ''/proj/go.mod'' =
          files exWorld ''/proj/go.mod''"
    by (rule Run_dry_run_keeps_files [OF a b])
  then have "files (snd (Run exPlatform exDryRun [''github.com/old/module''] exWorld)) ''/proj/go.mod'' =
          Some exMainGoMod"
    by (simp add: exWorld_def)
  then show ?thesis by (simp add: Run_dry_example)
qed

theorem Run_stale_failure_not_fatal_witness:
  "findStaleReplaces exPlatform exBrokenWorld ''/proj'' [exFromDep] =
     Inl (Error ''/proj/go.mod: syntax error'') \<and>
   fst (Run exPlatform exApply [''github.com/old/module''] exBrokenWorld) = None \<and>
   files (snd (Run exPlatform exApply [''github.com/old/module''] exBrokenWorld)) ''/proj/go.mod'' =
     Some (''<<<<<<< HEAD\<newline>'' @
           ''replace github.com/old/module => github.com/new/module v1.0.0 // from: example.com/dep\<newline>'')"
proof -
  let ?deps = "filter (\<lambda>m. \<not> Main m \<and> \<not> Indirect m) exModules"
  let ?w3 = "exBrokenWorld\<lparr>outputLines :=
               [''Found 1 direct dependencies'', ''Processing example.com/dep@v0.0.0'']\<rparr>"
  let ?err = "Error ''/proj/go.mod: syntax error''"
  have dir: "resolveDir exPlatform exApply exBrokenWorld = Inr ''/proj''"
    by (simp add: resolveDir_def exApply_def exPlatform_def)
  have deps: "listDirectDeps exPlatform exBrokenWorld ''/proj'' = (Inr ?deps, exBrokenWorld)"
    by (simp add: listDirectDeps_def ex_platform_defs)
  have coll: "collectReplaces exPlatform exApply ?deps
                (verbose exApply (''Found '' @ showNat (length ?deps) @ '' direct dependencies'')
                   exBrokenWorld) = ([exFromDep], ?w3)"
    by (simp add: run_defs path_defs toReplace_def Let_def ex_platform_defs ex_file_defs
        exBrokenWorld_def exApply_def exFromDep_def ReadFile_def)
  have fail: "findStaleReplaces exPlatform ?w3 ''/proj''
                (Deduplicate (Compare exPlatform) [''github.com/old/module''] [exFromDep]) = Inl ?err"
    by (simp add: findStaleReplaces_def ParseReplacesWithSource_def ReadFile_def Let_def
        ex_platform_defs ex_file_defs exBrokenWorld_def)
  have ok: "\<forall>v d a. fst (fst (Exec exPlatform v d a)) = None"
    by (simp add: exPlatform_def exExec_def)
  from Run_stale_failure_not_fatal [OF dir deps coll fail] ok
  have "fst (Run exPlatform exApply [''github.com/old/module''] exBrokenWorld) = None"
    by blast
  moreover have "findStaleReplaces exPlatform exBrokenWorld ''/proj'' [exFromDep] = Inl ?err"
    by (simp add: findStaleReplaces_def ParseReplacesWithSource_def ReadFile_def Let_def
        ex_platform_defs ex_file_defs exBrokenWorld_def)
  moreover have "files (snd (Run exPlatform exApply [''github.com/old/module''] exBrokenWorld))
        ''/proj/go.mod'' =
     Some (''<<<<<<< HEAD\<newline>'' @
           ''replace github.com/old/module => github.com/new/module v1.0.0 // from: example.com/dep\<newline>'')"
    by (simp add: run_defs source_defs comment_defs dedup_defs path_defs core_defs
        ex_platform_defs ex_file_defs exBrokenWorld_def exApply_def)
  ultimately show ?thesis by simp
qed


end
